theory Spec2Isabelle
  imports Main "HOL-Library.Sublist"
begin

section \<open>Strings and regular expressions of the host language\<close>

text \<open>
  The two servers (\<^verbatim>\<open>problem-assistance-server.js\<close>, the lenient one, and
  \<^verbatim>\<open>problem-assistance-server-fixed.js\<close>, the strict one) are JavaScript. A string is
  modelled as a list of code units below 256 (\<^typ>\<open>string\<close>), read as Latin-1. The
  regular expressions of \<^verbatim>\<open>cleanResponseText\<close> use no alternation and no group, and
  every quantifier stands on a single character class, so a pattern is a list of atoms
  and the backtracking matcher of the language is a recursion on that list.
\<close>

definition is_line_terminator :: "char \<Rightarrow> bool" where
  "is_line_terminator c = (c = CHR 0x0A \<or> c = CHR 0x0D)"

text \<open>Character classes: a literal, \<^verbatim>\<open>\s\<close>, \<^verbatim>\<open>\w\<close>, \<^verbatim>\<open>\d\<close>, \<^verbatim>\<open>.\<close>,
  \<^verbatim>\<open>[\s\S]\<close>, a bracket list, a negated bracket list and \<^verbatim>\<open>[a-zA-Z_]\<close>.\<close>

datatype cls = Lit char | Space | Word | Digit | Dot | AnyChar | OneOf string | NoneOf string
  | IdentStart

fun in_cls :: "cls \<Rightarrow> char \<Rightarrow> bool" where
  "in_cls (Lit a) c = (c = a)"
| "in_cls Space c =
     (c \<in> set [CHR 0x09, CHR 0x0A, CHR 0x0B, CHR 0x0C, CHR 0x0D, CHR 0x20, CHR 0xA0])"
| "in_cls Word c = (let n = (of_char c :: nat) in
     (97 \<le> n \<and> n \<le> 122) \<or> (65 \<le> n \<and> n \<le> 90) \<or> (48 \<le> n \<and> n \<le> 57) \<or> n = 95)"
| "in_cls Digit c = (let n = (of_char c :: nat) in 48 \<le> n \<and> n \<le> 57)"
| "in_cls Dot c = (\<not> is_line_terminator c)"
| "in_cls AnyChar c = True"
| "in_cls (OneOf cs) c = (c \<in> set cs)"
| "in_cls (NoneOf cs) c = (c \<notin> set cs)"
| "in_cls IdentStart c = (let n = (of_char c :: nat) in
     (97 \<le> n \<and> n \<le> 122) \<or> (65 \<le> n \<and> n \<le> 90) \<or> n = 95)"

text \<open>Atoms: one character of a class, a greedy star \<^verbatim>\<open>k*\<close>, a lazy star \<^verbatim>\<open>k*?\<close>,
  and the anchors \<^verbatim>\<open>^\<close> and \<^verbatim>\<open>$\<close> under the \<^verbatim>\<open>m\<close> flag.\<close>

datatype atom = One cls | Star cls | LazyStar cls | Bol | Eol

fun at_bol :: "char option \<Rightarrow> bool" where
  "at_bol None = True"
| "at_bol (Some c) = is_line_terminator c"

fun at_eol :: "string \<Rightarrow> bool" where
  "at_eol [] = True"
| "at_eol (c # s) = is_line_terminator c"

text \<open>\<open>rmatch r p s\<close> matches the pattern \<open>r\<close> at the start of \<open>s\<close>, where \<open>p\<close> is the
  character before \<open>s\<close> in the subject (\<open>None\<close> at its start); the result is the length of
  the match the backtracking search finds first.\<close>

fun rmatch :: "atom list \<Rightarrow> char option \<Rightarrow> string \<Rightarrow> nat option" where
  "rmatch [] p s = Some 0"
| "rmatch (One k # r) p [] = None"
| "rmatch (One k # r) p (c # s) =
     (if in_cls k c then map_option Suc (rmatch r (Some c) s) else None)"
| "rmatch (Bol # r) p s = (if at_bol p then rmatch r p s else None)"
| "rmatch (Eol # r) p s = (if at_eol s then rmatch r p s else None)"
| "rmatch (Star k # r) p [] = rmatch r p []"
| "rmatch (Star k # r) p (c # s) =
     (if in_cls k c
      then (case rmatch (Star k # r) (Some c) s of
              Some n \<Rightarrow> Some (Suc n)
            | None \<Rightarrow> rmatch r p (c # s))
      else rmatch r p (c # s))"
| "rmatch (LazyStar k # r) p [] = rmatch r p []"
| "rmatch (LazyStar k # r) p (c # s) =
     (case rmatch r p (c # s) of
        Some n \<Rightarrow> Some n
      | None \<Rightarrow>
          if in_cls k c then map_option Suc (rmatch (LazyStar k # r) (Some c) s) else None)"

text \<open>\<^verbatim>\<open>String.prototype.replace\<close> with a \<^verbatim>\<open>g\<close> pattern and a constant replacement:
  the matches are found from left to right, the search resumes where a match ended, and
  an empty match moves on by one character.\<close>

fun replaceAll :: "atom list \<Rightarrow> string \<Rightarrow> char option \<Rightarrow> string \<Rightarrow> string" where
  "replaceAll r rep p [] = (case rmatch r p [] of Some n \<Rightarrow> rep | None \<Rightarrow> [])"
| "replaceAll r rep p (c # s) =
     (case rmatch r p (c # s) of
        None \<Rightarrow> c # replaceAll r rep (Some c) s
      | Some 0 \<Rightarrow> rep @ c # replaceAll r rep (Some c) s
      | Some (Suc n) \<Rightarrow>
          rep @ replaceAll r rep (Some (last (take (Suc n) (c # s)))) (drop n s))"

definition replace :: "atom list \<Rightarrow> string \<Rightarrow> string \<Rightarrow> string" where
  "replace r rep s = replaceAll r rep None s"

definition lit :: "string \<Rightarrow> atom list" where
  "lit s = map (\<lambda>c. One (Lit c)) s"

definition plus :: "cls \<Rightarrow> atom list" where
  "plus k = [One k, Star k]"

text \<open>\<^verbatim>\<open>String.prototype.toLowerCase\<close> on code units below 256.\<close>

definition lower_char :: "char \<Rightarrow> char" where
  "lower_char c = (let n = (of_char c :: nat) in
     if (65 \<le> n \<and> n \<le> 90) \<or> (192 \<le> n \<and> n \<le> 222 \<and> n \<noteq> 215)
     then char_of (n + 32) else c)"

definition toLowerCase :: "string \<Rightarrow> string" where
  "toLowerCase s = map lower_char s"

section \<open>Language validation\<close>

definition SUPPORTED_LANGUAGES :: "string list" where
  "SUPPORTED_LANGUAGES = [''python'', ''javascript'', ''java'', ''cpp'', ''c'']"

definition DEFAULT_LANGUAGE :: string where
  "DEFAULT_LANGUAGE = ''python''"

text \<open>The errors the servers raise or report.\<close>

datatype error =
    LanguageRequired
  | UnsupportedLanguage string
  | FailedToLoadQuestions
  | QuestionNotFound "int option"
  | StreamError string

text \<open>A query parameter is absent (\<open>None\<close>) or a string; \<^verbatim>\<open>!language\<close> holds for an
  absent and for an empty one.\<close>

definition falsy :: "string option \<Rightarrow> bool" where
  "falsy q = (case q of None \<Rightarrow> True | Some s \<Rightarrow> s = [])"

text \<open>\<^verbatim>\<open>validateLanguage\<close> of the lenient server.\<close>

definition validateLanguage :: "string option \<Rightarrow> string" where
  "validateLanguage language =
     (case language of
        None \<Rightarrow> DEFAULT_LANGUAGE
      | Some l \<Rightarrow>
          if l = [] then DEFAULT_LANGUAGE
          else let normalizedLang = toLowerCase l in
            if normalizedLang \<in> set SUPPORTED_LANGUAGES then normalizedLang
            else DEFAULT_LANGUAGE)"

text \<open>\<^verbatim>\<open>validateLanguage\<close> of the strict server: the two \<^verbatim>\<open>throw\<close>s are \<open>Inl\<close>.\<close>

definition validateLanguage_fixed :: "string option \<Rightarrow> error + string" where
  "validateLanguage_fixed language =
     (case language of
        None \<Rightarrow> Inl LanguageRequired
      | Some l \<Rightarrow>
          if l = [] then Inl LanguageRequired
          else let normalizedLang = toLowerCase l in
            if normalizedLang \<in> set SUPPORTED_LANGUAGES then Inr normalizedLang
            else Inl (UnsupportedLanguage l))"

section \<open>The response sanitizer\<close>

definition code_symbol :: cls where
  "code_symbol = OneOf '';{}=()''"

definition ident_rest :: cls where
  "ident_rest = Word"

text \<open>The patterns the two servers share, in the order of \<^verbatim>\<open>codePatterns\<close>.\<close>

definition pat_indent_spaces :: "atom list" where
  "pat_indent_spaces =
     [Bol, One Space, One Space, Star Space, Star Dot, One code_symbol, Star Dot, Eol]"

definition pat_indent_tabs :: "atom list" where
  "pat_indent_tabs =
     [Bol] @ plus (Lit (CHR 0x09)) @ [Star Dot, One code_symbol, Star Dot, Eol]"

definition pat_import :: "atom list" where
  "pat_import = [Bol] @ lit ''import'' @ plus Space @ plus Word"

definition pat_from_import :: "atom list" where
  "pat_from_import = [Bol] @ lit ''from'' @ plus Space @ plus Word @ plus Space @ lit ''import''"

definition pat_class :: "atom list" where
  "pat_class = [Bol] @ lit ''class'' @ plus Space @ plus Word"

definition pat_if :: "atom list" where
  "pat_if = [Bol] @ lit ''if'' @ plus Space @ [Star Dot] @ lit '':''"

definition pat_for :: "atom list" where
  "pat_for = [Bol] @ lit ''for'' @ plus Space @ [Star Dot] @ lit '':''"

definition pat_while :: "atom list" where
  "pat_while = [Bol] @ lit ''while'' @ plus Space @ [Star Dot] @ lit '':''"

definition pat_return :: "atom list" where
  "pat_return = [Bol] @ lit ''return'' @ plus Space @ [Star Dot]"

definition pat_assign :: "atom list" where
  "pat_assign =
     [Bol, Star Space, One IdentStart, Star ident_rest, Star Space] @ lit ''='' @
     [Star Space, Star Dot]"

text \<open>The fenced and the inline code span.\<close>

definition pat_fence :: "atom list" where
  "pat_fence = lit ''```'' @ [LazyStar AnyChar] @ lit ''```''"

definition pat_inline :: "atom list" where
  "pat_inline = lit ''`'' @ [Star (NoneOf ''`'')] @ lit ''`''"

text \<open>The lenient server writes the Python definition pattern as
  \<^verbatim>\<open>/^def\s+\w+\s*$$.*$$:/gm\<close>: four end-of-line anchors where the strict server has
  the escaped parentheses.\<close>

definition pat_def :: "atom list" where
  "pat_def =
     [Bol] @ lit ''def'' @ plus Space @ plus Word @ [Star Space, Eol, Eol, Star Dot, Eol, Eol] @
     lit '':''"

definition codePatterns :: "atom list list" where
  "codePatterns =
     [pat_indent_spaces, pat_indent_tabs, pat_def, pat_import, pat_from_import, pat_class,
      pat_if, pat_for, pat_while, pat_return, pat_assign]"

text \<open>\<^verbatim>\<open>for (const pattern of codePatterns) cleaned = cleaned.replace(pattern, "")\<close>\<close>

fun strip_patterns :: "atom list list \<Rightarrow> string \<Rightarrow> string" where
  "strip_patterns [] cleaned = cleaned"
| "strip_patterns (pattern # ps) cleaned = strip_patterns ps (replace pattern [] cleaned)"

text \<open>\<^verbatim>\<open>cleanResponseText\<close> of the lenient server.\<close>

definition cleanResponseText :: "string \<Rightarrow> string" where
  "cleanResponseText text =
     strip_patterns codePatterns (replace pat_inline [] (replace pat_fence [] text))"

text \<open>The patterns of the strict server.\<close>

definition pat_def_fixed :: "atom list" where
  "pat_def_fixed =
     [Bol] @ lit ''def'' @ plus Space @ plus Word @ [Star Space] @ lit ''('' @ [Star Dot] @
     lit ''):''"

definition pat_function :: "atom list" where
  "pat_function =
     [Bol] @ lit ''function'' @ plus Space @ plus Word @ [Star Space] @ lit ''('' @ [Star Dot] @
     lit '')''"

definition pat_fun_expr :: "string \<Rightarrow> atom list" where
  "pat_fun_expr kw =
     [Bol] @ lit kw @ plus Space @ [Star Dot] @ lit ''='' @ [Star Space] @ lit ''function''"

definition pat_arrow :: "string \<Rightarrow> atom list" where
  "pat_arrow kw =
     [Bol] @ lit kw @ plus Space @ [Star Dot] @ lit ''='' @ [Star Space] @ lit ''('' @
     [Star Dot] @ lit '')'' @ [Star Space] @ lit ''=>''"

definition pat_method :: "string \<Rightarrow> atom list" where
  "pat_method kw = [Bol] @ lit kw @ plus Space @ [Star Dot] @ lit ''(''"

definition pat_cdecl :: "string \<Rightarrow> atom list" where
  "pat_cdecl ty = [Bol] @ lit ty @ plus Space @ plus Word @ [Star Space] @ lit ''(''"

definition pat_prefix :: "string \<Rightarrow> atom list" where
  "pat_prefix s = [Bol] @ lit s"

definition pat_using_namespace :: "atom list" where
  "pat_using_namespace = [Bol] @ lit ''using'' @ plus Space @ lit ''namespace''"

definition pat_namespace :: "atom list" where
  "pat_namespace = [Bol] @ lit ''namespace'' @ plus Space @ plus Word"

definition pat_call_op :: "string \<Rightarrow> string \<Rightarrow> atom list" where
  "pat_call_op f op = [Bol] @ lit f @ [Star Space] @ lit op"

definition pat_method_call :: "atom list" where
  "pat_method_call =
     [Bol, One IdentStart, Star ident_rest] @ lit ''.'' @ [One IdentStart, Star ident_rest] @
     lit ''(''"

definition pat_function_call :: "atom list" where
  "pat_function_call = [Bol, One IdentStart, Star ident_rest] @ lit ''(''"

definition codePatterns_fixed :: "atom list list" where
  "codePatterns_fixed =
     [pat_indent_spaces, pat_indent_tabs, pat_def_fixed, pat_import, pat_from_import, pat_class,
      pat_if, pat_for, pat_while, pat_return, pat_assign,
      pat_function,
      pat_fun_expr ''const'', pat_fun_expr ''let'', pat_fun_expr ''var'',
      pat_arrow ''const'', pat_arrow ''let'', pat_arrow ''var'',
      pat_method ''public'', pat_method ''private'', pat_method ''protected'',
      pat_method ''static'',
      pat_cdecl ''void'', pat_cdecl ''int'', pat_cdecl ''char'', pat_cdecl ''float'',
      pat_cdecl ''double'', pat_cdecl ''bool'',
      pat_prefix ''#include'', pat_using_namespace, pat_namespace,
      pat_call_op ''template'' ''<'', pat_call_op ''printf'' ''('',
      pat_call_op ''cout'' ''<<'', pat_call_op ''cin'' ''>>'',
      pat_prefix ''System.out.println'', pat_prefix ''System.out.print'',
      pat_prefix ''console.log'', pat_call_op ''print'' ''('',
      pat_method_call, pat_function_call]"

definition pat_slice :: "atom list" where
  "pat_slice =
     lit ''['' @ [Star Space] @ plus Digit @ [Star Space] @ lit '':'' @ [Star Space] @
     plus Digit @ [Star Space] @ lit '']''"

definition pat_pair :: "atom list" where
  "pat_pair =
     lit ''('' @ [Star Space] @ plus Digit @ [Star Space] @ lit '','' @ [Star Space] @
     plus Digit @ [Star Space] @ lit '')''"

definition pat_object :: "atom list" where
  "pat_object =
     lit ''{'' @ [Star Space] @ plus Word @ [Star Space] @ lit '':'' @ [Star Space] @
     plus Word @ [Star Space] @ lit ''}''"

definition pat_bare_name :: "atom list" where
  "pat_bare_name = [Bol, One IdentStart, Star ident_rest, Eol]"

definition pat_blank_lines :: "atom list" where
  "pat_blank_lines =
     [One (Lit (CHR 0x0A)), Star Space, One (Lit (CHR 0x0A)), Star Space, One (Lit (CHR 0x0A))]"

text \<open>\<^verbatim>\<open>cleanResponseText\<close> of the strict server.\<close>

definition cleanResponseText_fixed :: "string \<Rightarrow> string" where
  "cleanResponseText_fixed text =
     replace pat_blank_lines [CHR 0x0A, CHR 0x0A]
       (replace pat_bare_name []
         (replace pat_object []
           (replace pat_pair []
             (replace pat_slice []
               (strip_patterns codePatterns_fixed
                 (replace pat_inline [] (replace pat_fence [] text)))))))"

section \<open>Problems, display names and the prompt builder\<close>

text \<open>A problem of the catalog (\<^verbatim>\<open>questions.json\<close>); the fields the servers read.\<close>

record problem =
  title :: string
  difficulty :: string
  question :: string
  input_format :: string
  output_format :: string
  constraints :: string
  hint :: string
  sample_input :: string
  sample_output :: string

text \<open>\<^verbatim>\<open>Array.prototype.join("\n")\<close>: a template literal is the join of its lines.\<close>

fun join_lines :: "string list \<Rightarrow> string" where
  "join_lines [] = []"
| "join_lines [l] = l"
| "join_lines (l # ls) = l @ CHR 0x0A # join_lines ls"

text \<open>\<^verbatim>\<open>String.prototype.trim\<close> removes the characters of \<^verbatim>\<open>\s\<close> at both ends.\<close>

definition is_space :: "char \<Rightarrow> bool" where
  "is_space c = in_cls Space c"

definition trim :: "string \<Rightarrow> string" where
  "trim s = rev (dropWhile is_space (rev (dropWhile is_space s)))"

text \<open>\<^verbatim>\<open>getLanguageDisplayName\<close> of the lenient server.\<close>

definition getLanguageDisplayName :: "string \<Rightarrow> string" where
  "getLanguageDisplayName language =
     (if language = ''python'' then ''Python''
      else if language = ''javascript'' then ''JavaScript''
      else if language = ''java'' then ''Java''
      else if language = ''cpp'' then ''C++''
      else if language = ''c'' then ''C''
      else ''Python'')"

text \<open>\<^verbatim>\<open>getLanguageDisplayName\<close> of the strict server.\<close>

definition getLanguageDisplayName_fixed :: "string \<Rightarrow> string" where
  "getLanguageDisplayName_fixed language =
     (if language = ''python'' then ''Python''
      else if language = ''javascript'' then ''JavaScript''
      else if language = ''java'' then ''Java''
      else if language = ''cpp'' then ''C++''
      else if language = ''c'' then ''C''
      else ''Unknown Language'')"

text \<open>\<^verbatim>\<open>getLanguageSpecificContext\<close> (lenient server only): each branch is a template
  literal followed by \<^verbatim>\<open>.trim()\<close>.\<close>

definition getLanguageSpecificContext :: "string \<Rightarrow> string" where
  "getLanguageSpecificContext language =
     (if language = ''python'' then
        trim (join_lines
        ['''',
         ''- Focus on Python-specific approaches and considerations'',
         ''- Consider Python's built-in data structures like lists, dictionaries, sets, and tuples'',
         ''- Think about Python's standard library modules that might be helpful'',
         ''- Consider Python's strengths in readability and simplicity'',
         ''- Remember Python's zero-indexed collections and slicing capabilities'',
         ''      ''])
      else if language = ''javascript'' then
        trim (join_lines
        ['''',
         ''- Focus on JavaScript-specific approaches and considerations'',
         ''- Consider JavaScript's array methods and object manipulation techniques'',
         ''- Think about JavaScript's functional programming capabilities'',
         ''- Consider JavaScript's asynchronous programming model if relevant'',
         ''- Remember JavaScript's zero-indexed arrays and object property access'',
         ''      ''])
      else if language = ''java'' then
        trim (join_lines
        ['''',
         ''- Focus on Java-specific approaches and considerations'',
         ''- Consider Java's collection framework (ArrayList, HashMap, etc.)'',
         ''- Think about Java's object-oriented design principles'',
         ''- Consider Java's type system and how it affects the solution'',
         ''- Remember Java's zero-indexed arrays and explicit type declarations'',
         ''      ''])
      else if language = ''cpp'' then
        trim (join_lines
        ['''',
         ''- Focus on C++-specific approaches and considerations'',
         ''- Consider C++'s STL containers and algorithms'',
         ''- Think about memory management and efficiency'',
         ''- Consider C++'s template system for generic programming'',
         ''- Remember C++'s zero-indexed arrays and pointer arithmetic'',
         ''      ''])
      else if language = ''c'' then
        trim (join_lines
        ['''',
         ''- Focus on C-specific approaches and considerations'',
         ''- Consider C's standard library functions'',
         ''- Think about manual memory management and efficiency'',
         ''- Consider C's procedural programming paradigm'',
         ''- Remember C's zero-indexed arrays and pointer arithmetic'',
         ''      ''])
      else [])"

text \<open>\<^verbatim>\<open>buildPrompt\<close> of the lenient server, its template literal first; an absent
  language takes the default parameter value.\<close>

definition prompt_text :: "problem \<Rightarrow> string \<Rightarrow> string \<Rightarrow> string" where
  "prompt_text q langDisplayName languageContext =
     join_lines
     ['''',
      ''You are an expert '' @ langDisplayName @ '' mentor.'',
      ''Read the following problem carefully and explain it using EXACTLY the following structure with these EXACT section headings:'',
      '''',
      ''SECTION 1: Explaining the Problem'',
      ''- Provide a detailed explanation of the problem at a layman level'',
      ''- Break down the problem into smaller parts using simple, everyday language'',
      ''- Explain what the problem is asking for and what a solution should accomplish'',
      ''- Use concrete examples to illustrate the problem, including the provided sample inputs/outputs'',
      ''- Make sure a complete beginner can understand what needs to be done'',
      '''',
      ''SECTION 2: DSA Topics Involved'',
      ''- Identify ALL the key Data Structures and Algorithms (DSA) topics involved in this problem'',
      ''- List each DSA topic as a bullet point (e.g., Stack, Queue, Binary Search, Dynamic Programming)'',
      ''- For each DSA topic mentioned, provide a simple explanation of what it is and how it works'',
      ''- Explain why this DSA topic is relevant to solving this particular problem'',
      ''- Use analogies and real-world examples to explain complex DSA concepts'',
      '''',
      ''SECTION 3: Solution Strategy'',
      ''- Provide a single, clear solution strategy based on '' @ langDisplayName,
      ''- Explain the approach step-by-step in a logical order'',
      ''- Focus on the thought process and reasoning behind each step'',
      ''- Mention '' @ langDisplayName @ ''-specific considerations:'',
      languageContext,
      ''- Number each step clearly (1, 2, 3, etc.)'',
      ''- Explain the time and space complexity of the solution in simple terms'',
      '''',
      ''CRITICAL INSTRUCTIONS:'',
      ''1. DO NOT INCLUDE ANY CODE EXAMPLES OR SNIPPETS in your response'',
      ''2. DO NOT use markdown code blocks (backticks) anywhere in your response'',
      ''3. Strictly adhere to the given format with these EXACT section headings'',
      ''4. Only follow the 3 sections above'',
      ''5. Describe the solution in words only, without showing implementation'',
      ''6. NEVER include any '' @ langDisplayName @ '' code, pseudocode, or code-like syntax in your response'',
      ''7. If you feel tempted to show code, instead describe the algorithm in plain English'',
      ''8. Make sure your explanations are accessible to beginners with no prior DSA knowledge'',
      ''Problem Title:'',
      title q,
      ''Difficulty:'',
      difficulty q,
      ''Problem Statement:'',
      question q,
      ''Input Format:'',
      input_format q,
      ''Output Format:'',
      output_format q,
      ''Constraints:'',
      constraints q,
      ''Hint:'',
      hint q,
      ''Sample Input:'',
      sample_input q,
      ''Sample Output:'',
      sample_output q,
      ''Selected Language:'',
      langDisplayName,
      '''']"

definition buildPrompt :: "problem \<Rightarrow> string option \<Rightarrow> string" where
  "buildPrompt q language =
     (let normalizedLang =
            validateLanguage (case language of None \<Rightarrow> Some DEFAULT_LANGUAGE | Some l \<Rightarrow> Some l);
          langDisplayName = getLanguageDisplayName normalizedLang;
          languageContext = getLanguageSpecificContext normalizedLang
      in prompt_text q langDisplayName languageContext)"

text \<open>\<^verbatim>\<open>buildPrompt\<close> of the strict server: \<^verbatim>\<open>validateLanguage\<close> may throw.\<close>

definition prompt_text_fixed :: "problem \<Rightarrow> string \<Rightarrow> string" where
  "prompt_text_fixed q langDisplayName =
     join_lines
     ['''',
      ''You are an expert '' @ langDisplayName @ '' mentor specializing in Data Structures and Algorithms.'',
      ''Read the following problem carefully and explain it using EXACTLY the following structure with these EXACT section headings:'',
      '''',
      ''SECTION 1: Explaining the Problem'',
      ''- Describe the question in simple layman terms without any technical jargon'',
      ''- IMPORTANT: Clearly identify and explain the key DSA topics/concepts used in the question (e.g., arrays, linked lists, trees, graphs, sorting, searching, dynamic programming, recursion, etc.)'',
      ''- Break down the problem into smaller, more manageable parts'',
      ''- Use beginner-friendly language to describe the key task'',
      '''',
      ''SECTION 2: Solution Strategy'',
      ''- Comprehensively explain the core logic or strategy to solve this problem'',
      ''- ABSOLUTELY DO NOT provide any code examples, snippets, or implementation details'',
      ''- Focus on explaining the thought process and algorithmic approach'',
      ''- Explain WHY this approach works for the problem'',
      ''- Emphasize the importance of understanding the problem before attempting to write code'',
      ''- Encourage students to break down complex problems into simpler sub-problems'',
      ''- Discuss key challenges and how they can be handled in a beginner-friendly way'',
      '''',
      ''SECTION 3: Step-by-Step Approach'',
      ''- List numbered steps that a student should take to solve the problem'',
      ''- Each step should be a conceptual action, not a coding instruction'',
      ''- Focus on the algorithm and approach, not the implementation details'',
      '''',
      ''CRITICAL INSTRUCTIONS:'',
      ''1. DO NOT INCLUDE ANY CODE EXAMPLES OR SNIPPETS in your response'',
      ''2. DO NOT use markdown code blocks (backticks) anywhere in your response'',
      ''3. DO NOT include variable names, function names, or any syntax specific to '' @ langDisplayName,
      ''4. Strictly adhere to the given format with these EXACT section headings'',
      ''5. Only follow the 3 sections above'',
      ''6. Describe the solution in words only, without showing implementation'',
      ''7. NEVER include any '' @ langDisplayName @ '' code, pseudocode, or code-like syntax in your response'',
      ''8. If you feel tempted to show code, instead describe the algorithm in plain English'',
      ''9. Focus on explaining the DSA concepts and problem-solving approach'',
      '''',
      ''Problem Title:'',
      title q,
      ''Difficulty:'',
      difficulty q,
      ''Problem Statement:'',
      question q,
      ''Input Format:'',
      input_format q,
      ''Output Format:'',
      output_format q,
      ''Constraints:'',
      constraints q,
      ''Hint:'',
      hint q,
      ''Sample Input:'',
      sample_input q,
      ''Sample Output:'',
      sample_output q,
      ''Selected Language:'',
      langDisplayName,
      '''']"

definition buildPrompt_fixed :: "problem \<Rightarrow> string option \<Rightarrow> error + string" where
  "buildPrompt_fixed q language =
     (case validateLanguage_fixed language of
        Inl e \<Rightarrow> Inl e
      | Inr normalizedLang \<Rightarrow>
          let langDisplayName = getLanguageDisplayName_fixed normalizedLang
          in Inr (prompt_text_fixed q langDisplayName))"

section \<open>The fallback generator\<close>

text \<open>\<^verbatim>\<open>generateFallbackResponse\<close> of the lenient server, its template literal
  first.\<close>

definition fallback_text :: "problem \<Rightarrow> string \<Rightarrow> string \<Rightarrow> string" where
  "fallback_text q langDisplayName languageContext =
     join_lines
     [''SECTION 1: Explaining the Problem'',
      ''- The AI Mentor is not available right now. Please try again later.'',
      ''- This problem is about '' @ title q @ '' with a difficulty of '' @ difficulty q @ ''.'',
      ''- You selected '' @ langDisplayName @ '' as your programming language.'',
      ''- When the AI Mentor is available, it will provide a detailed explanation of this problem at a layman level.'',
      '''',
      ''SECTION 2: DSA Topics Involved'',
      ''- When the AI Mentor is available, it will identify the key Data Structures and Algorithms (DSA) topics involved in this problem.'',
      ''- It will explain each DSA topic in simple terms with examples.'',
      ''- Common DSA topics include arrays, linked lists, stacks, queues, trees, graphs, sorting algorithms, searching algorithms, and dynamic programming.'',
      ''- Understanding the relevant DSA topics is crucial for developing an effective solution strategy.'',
      '''',
      ''SECTION 3: Solution Strategy'',
      ''1. Read the problem statement and understand the requirements'',
      ''2. Analyze the sample inputs and outputs'',
      ''3. Think about potential algorithms or data structures that might help'',
      ''4. Consider '' @ langDisplayName @ ''-specific libraries or features that could be useful'',
      ''5. Plan your solution with '' @ langDisplayName @ '' in mind'',
      ''6. Try to implement a solution in '' @ langDisplayName @ '' and test it with the sample cases'',
      ''7. If you're stuck, try again later when the AI Mentor is available'',
      '''',
      ''When the AI Mentor is available, it will provide '' @ langDisplayName @ ''-specific guidance for this problem, including:'',
      languageContext]"

definition generateFallbackResponse :: "problem \<Rightarrow> string option \<Rightarrow> string" where
  "generateFallbackResponse q language =
     (let normalizedLang =
            validateLanguage (case language of None \<Rightarrow> Some DEFAULT_LANGUAGE | Some l \<Rightarrow> Some l);
          langDisplayName = getLanguageDisplayName normalizedLang;
          languageContext = getLanguageSpecificContext normalizedLang
      in fallback_text q langDisplayName languageContext)"

text \<open>\<^verbatim>\<open>generateFallbackResponse\<close> of the strict server.\<close>

definition fallback_text_fixed :: "problem \<Rightarrow> string \<Rightarrow> string" where
  "fallback_text_fixed q langDisplayName =
     join_lines
     [''SECTION 1: Explaining the Problem'',
      ''- The AI Mentor is not available right now. Please try again later.'',
      ''- This problem is about '' @ title q @ '' with a difficulty of '' @ difficulty q @ ''.'',
      ''- You selected '' @ langDisplayName @ '' as your programming language.'',
      '''',
      ''SECTION 2: Solution Strategy'',
      ''- While the AI Mentor is unavailable, you can try to solve this problem on your own.'',
      ''- Read the problem statement carefully and think about the key concepts involved.'',
      ''- Consider how you would approach this problem using '' @ langDisplayName @ ''.'',
      '''',
      ''SECTION 3: Step-by-Step Approach'',
      ''1. Read the problem statement and understand the requirements'',
      ''2. Analyze the sample inputs and outputs'',
      ''3. Think about potential algorithms or data structures that might help'',
      ''4. Try to implement a solution in '' @ langDisplayName @ '' and test it with the sample cases'',
      ''5. If you're stuck, try again later when the AI Mentor is available'']"

definition generateFallbackResponse_fixed :: "problem \<Rightarrow> string option \<Rightarrow> error + string" where
  "generateFallbackResponse_fixed q language =
     (case validateLanguage_fixed language of
        Inl e \<Rightarrow> Inl e
      | Inr normalizedLang \<Rightarrow>
          let langDisplayName = getLanguageDisplayName_fixed normalizedLang
          in Inr (fallback_text_fixed q langDisplayName))"

section \<open>The response store\<close>

text \<open>
  The store is the file \<^verbatim>\<open>PAResponse.json\<close>. Its content is modelled as the record
  that \<^verbatim>\<open>JSON.parse\<close> gives back (\<open>None\<close>: no file, or a content that does not
  parse to a record); \<^verbatim>\<open>JSON.stringify\<close> followed by \<^verbatim>\<open>JSON.parse\<close> is taken to
  return the record written. The strict server writes no \<^verbatim>\<open>languageDisplay\<close>.
\<close>

record stored =
  questionIndex :: int
  stored_title :: string
  language :: string
  languageDisplay :: "string option"
  response :: string
  timestamp :: string

text \<open>What a request reads from outside the process: the catalog
  (\<^verbatim>\<open>loadQuestions()\<close>, the empty list when it cannot be read), \<^verbatim>\<open>JSON.parse\<close> on a
  line of the inference stream, the inference endpoint, the clock, whether the file system
  calls of \<^verbatim>\<open>loadStoredResponse\<close> and of \<^verbatim>\<open>saveResponse\<close> succeed, and
  \<^verbatim>\<open>OLLAMA_MODEL\<close>.\<close>

text \<open>A parsed line: \<^verbatim>\<open>JSON.parse\<close> throws (\<open>Malformed\<close>), or gives a record whose
  \<^verbatim>\<open>response\<close> is the string (the empty string stands for an absent or falsy one).\<close>

datatype parsed = Malformed | Parsed string

text \<open>The inference endpoint: \<^verbatim>\<open>axios.post\<close> rejects (connection refused, timeout,
  status outside 2xx), or resolves with a stream that emits chunks and then \<^verbatim>\<open>end\<close> or
  \<^verbatim>\<open>error\<close>.\<close>

datatype stream_end = Ended | Errored string

datatype outcome = Rejected string | Streamed "string list" stream_end

record env =
  questions :: "problem list"
  parse :: "string \<Rightarrow> parsed"
  infer :: "string \<Rightarrow> string \<Rightarrow> outcome"
  now :: string
  read_ok :: bool
  write_ok :: bool
  OLLAMA_MODEL :: string

definition loadStoredResponse :: "env \<Rightarrow> stored option \<Rightarrow> stored option" where
  "loadStoredResponse e file = (if read_ok e then file else None)"

text \<open>\<^verbatim>\<open>saveResponse\<close> of the lenient server: the result and the file afterwards.\<close>

definition saveResponse ::
  "env \<Rightarrow> stored option \<Rightarrow> int \<Rightarrow> string \<Rightarrow> string \<Rightarrow> string option \<Rightarrow> bool \<times> stored option"
where
  "saveResponse e file qi ttl responseText lang =
     (let cleanedResponse = cleanResponseText responseText;
          normalizedLang =
            validateLanguage (case lang of None \<Rightarrow> Some DEFAULT_LANGUAGE | Some l \<Rightarrow> Some l);
          langDisplayName = getLanguageDisplayName normalizedLang;
          responseData =
            \<lparr>questionIndex = qi, stored_title = ttl, language = normalizedLang,
             languageDisplay = Some langDisplayName, response = cleanedResponse,
             timestamp = now e\<rparr>
      in if write_ok e then (True, Some responseData) else (False, file))"

text \<open>\<^verbatim>\<open>saveResponse\<close> of the strict server: a language that does not validate throws
  inside the \<^verbatim>\<open>try\<close>, and nothing is written.\<close>

definition saveResponse_fixed ::
  "env \<Rightarrow> stored option \<Rightarrow> int \<Rightarrow> string \<Rightarrow> string \<Rightarrow> string option \<Rightarrow> bool \<times> stored option"
where
  "saveResponse_fixed e file qi ttl responseText lang =
     (let cleanedResponse = cleanResponseText_fixed responseText
      in case validateLanguage_fixed lang of
           Inl err \<Rightarrow> (False, file)
         | Inr normalizedLang \<Rightarrow>
             let responseData =
                   \<lparr>questionIndex = qi, stored_title = ttl, language = normalizedLang,
                    languageDisplay = None, response = cleanedResponse, timestamp = now e\<rparr>
             in if write_ok e then (True, Some responseData) else (False, file))"

section \<open>Requests\<close>

text \<open>The query string of a request: each parameter absent or a string.\<close>

record request =
  index_param :: "string option"
  language_param :: "string option"
  refresh_param :: "string option"

text \<open>\<^verbatim>\<open>Number.parseInt\<close> with no radix: leading white space, a sign, a \<^verbatim>\<open>0x\<close>
  prefix, then the longest run of digits; \<open>None\<close> is \<^verbatim>\<open>NaN\<close>. The value is the exact
  integer (the rounding of a value beyond \<open>2^53\<close> is not modelled).\<close>

definition digit_value :: "char \<Rightarrow> nat" where
  "digit_value c = (let n = (of_char c :: nat) in
     if 48 \<le> n \<and> n \<le> 57 then n - 48
     else if 97 \<le> n \<and> n \<le> 102 then n - 87
     else if 65 \<le> n \<and> n \<le> 70 then n - 55
     else 36)"

definition parse_digits :: "nat \<Rightarrow> string \<Rightarrow> nat option" where
  "parse_digits radix s =
     (let ds = takeWhile (\<lambda>c. digit_value c < radix) s
      in if ds = [] then None
         else Some (foldl (\<lambda>a c. a * radix + digit_value c) 0 ds))"

definition parse_unsigned :: "string \<Rightarrow> nat option" where
  "parse_unsigned s =
     (case s of
        a # b # r \<Rightarrow>
          if a = CHR ''0'' \<and> (b = CHR ''x'' \<or> b = CHR ''X'') then parse_digits 16 r
          else parse_digits 10 s
      | _ \<Rightarrow> parse_digits 10 s)"

definition parseInt :: "string \<Rightarrow> int option" where
  "parseInt s =
     (case dropWhile is_space s of
        [] \<Rightarrow> None
      | c # r \<Rightarrow>
          if c = CHR ''-'' then map_option (\<lambda>n. - int n) (parse_unsigned r)
          else if c = CHR ''+'' then map_option int (parse_unsigned r)
          else map_option int (parse_unsigned (c # r)))"

text \<open>\<^verbatim>\<open>req.query.index ? Number.parseInt(req.query.index) : 0\<close>\<close>

definition request_index :: "request \<Rightarrow> int option" where
  "request_index req =
     (case index_param req of
        None \<Rightarrow> Some 0
      | Some s \<Rightarrow> if s = [] then Some 0 else parseInt s)"

text \<open>\<^verbatim>\<open>req.query.refresh === "true"\<close>\<close>

definition request_refresh :: "request \<Rightarrow> bool" where
  "request_refresh req = (refresh_param req = Some ''true'')"

text \<open>\<^verbatim>\<open>questions[index]\<close>: \<^verbatim>\<open>undefined\<close> for \<^verbatim>\<open>NaN\<close> and outside the array.\<close>

definition question_at :: "problem list \<Rightarrow> int \<Rightarrow> problem option" where
  "question_at qs i = (if 0 \<le> i \<and> i < int (length qs) then Some (qs ! nat i) else None)"

text \<open>\<^verbatim>\<open>String.prototype.split("\n")\<close>\<close>

fun split_nl :: "string \<Rightarrow> string list" where
  "split_nl [] = [[]]"
| "split_nl (c # s) =
     (if c = CHR 0x0A then [] # split_nl s
      else (case split_nl s of l # ls \<Rightarrow> (c # l) # ls | [] \<Rightarrow> [[c]]))"

section \<open>The streaming endpoint\<close>

text \<open>The events written to the response; \<open>Data t f\<close> carries the fragment and whether
  the payload has \<^verbatim>\<open>fallback: true\<close>.\<close>

datatype event =
    Metadata string string string bool
  | Data string bool
  | Complete
  | Error error

text \<open>What a handler leaves behind: the events written before \<^verbatim>\<open>res.end()\<close>, the
  store file, and the requests posted to the inference endpoint (model and prompt).\<close>

record result =
  events :: "event list"
  store :: "stored option"
  calls :: "(string \<times> string) list"

text \<open>The state of the two stream listeners.\<close>

record relay =
  fullResponse :: string
  jsonBuffer :: string
  written :: "event list"

text \<open>The \<^verbatim>\<open>for\<close> loop of the \<^verbatim>\<open>data\<close> listener over the complete lines; the flag is
  \<open>False\<close> when \<^verbatim>\<open>JSON.parse\<close> threw and the loop was left.\<close>

fun relay_lines ::
  "(string \<Rightarrow> parsed) \<Rightarrow> string list \<Rightarrow> string \<Rightarrow> event list \<Rightarrow> (string \<times> event list) \<times> bool"
where
  "relay_lines prs [] full evs = ((full, evs), True)"
| "relay_lines prs (l # ls) full evs =
     (if trim l = [] then relay_lines prs ls full evs
      else (case prs l of
              Malformed \<Rightarrow> ((full, evs), False)
            | Parsed t \<Rightarrow>
                if t = [] then relay_lines prs ls full evs
                else relay_lines prs ls (full @ t) (evs @ [Data t False])))"

definition on_data :: "(string \<Rightarrow> parsed) \<Rightarrow> relay \<Rightarrow> string \<Rightarrow> relay" where
  "on_data prs st chunkStr =
     (let buf = jsonBuffer st @ chunkStr;
          lines = split_nl buf
      in case relay_lines prs (butlast lines) (fullResponse st) (written st) of
           ((full, evs), True) \<Rightarrow> \<lparr>fullResponse = full, jsonBuffer = last lines, written = evs\<rparr>
         | ((full, evs), False) \<Rightarrow> \<lparr>fullResponse = full, jsonBuffer = buf, written = evs\<rparr>)"

text \<open>The first part of the \<^verbatim>\<open>end\<close> listener: what is left in the buffer.\<close>

definition on_end :: "(string \<Rightarrow> parsed) \<Rightarrow> relay \<Rightarrow> relay" where
  "on_end prs st =
     (if trim (jsonBuffer st) = [] then st
      else (case prs (jsonBuffer st) of
              Malformed \<Rightarrow> st
            | Parsed t \<Rightarrow>
                if t = [] then st
                else st\<lparr>fullResponse := fullResponse st @ t,
                        written := written st @ [Data t False]\<rparr>))"

text \<open>The generating branch of \<^verbatim>\<open>/explain-stream\<close> of the lenient server.\<close>

definition generate_stream ::
  "env \<Rightarrow> stored option \<Rightarrow> int \<Rightarrow> problem \<Rightarrow> string \<Rightarrow> string \<Rightarrow> result"
where
  "generate_stream e file i q normalizedLang langDisplayName =
     (let prompt = buildPrompt q (Some normalizedLang);
          posted = [(OLLAMA_MODEL e, prompt)];
          metadata = Metadata (title q) normalizedLang langDisplayName False
      in case infer e (OLLAMA_MODEL e) prompt of
           Rejected msg \<Rightarrow>
             let fallbackResponse = generateFallbackResponse q (Some normalizedLang);
                 saved = saveResponse e file i (title q) fallbackResponse (Some normalizedLang)
             in \<lparr>events = [metadata, Data fallbackResponse True, Complete],
                 store = snd saved, calls = posted\<rparr>
         | Streamed chunks fin \<Rightarrow>
             let st = foldl (on_data (parse e))
                        \<lparr>fullResponse = [], jsonBuffer = [], written = [metadata]\<rparr> chunks
             in (case fin of
                   Ended \<Rightarrow>
                     let st' = on_end (parse e) st;
                         saved = saveResponse e file i (title q) (fullResponse st')
                                   (Some normalizedLang)
                     in \<lparr>events = written st' @ [Complete], store = snd saved, calls = posted\<rparr>
                 | Errored msg \<Rightarrow>
                     \<lparr>events = written st @ [Error (StreamError msg)], store = file,
                      calls = posted\<rparr>))"

text \<open>\<^verbatim>\<open>app.get("/explain-stream")\<close> of the lenient server.\<close>

definition explain_stream :: "env \<Rightarrow> stored option \<Rightarrow> request \<Rightarrow> result" where
  "explain_stream e file req =
     (if length (questions e) = 0
      then \<lparr>events = [Error FailedToLoadQuestions], store = file, calls = []\<rparr>
      else
        let index = request_index req;
            forceRefresh = request_refresh req;
            lang = (if falsy (language_param req) then Some DEFAULT_LANGUAGE
                    else language_param req);
            normalizedLang = validateLanguage lang;
            langDisplayName = getLanguageDisplayName normalizedLang
        in case (case index of None \<Rightarrow> None
                 | Some i \<Rightarrow> map_option (Pair i) (question_at (questions e) i)) of
             None \<Rightarrow> \<lparr>events = [Error (QuestionNotFound index)], store = file, calls = []\<rparr>
           | Some (i, q) \<Rightarrow>
               (case loadStoredResponse e file of
                  None \<Rightarrow> generate_stream e file i q normalizedLang langDisplayName
                | Some storedResponse \<Rightarrow>
                    if \<not> forceRefresh \<and> questionIndex storedResponse = i \<and>
                       language storedResponse = normalizedLang
                    then \<lparr>events = [Metadata (title q) normalizedLang langDisplayName True,
                                    Data (response storedResponse) False, Complete],
                          store = file, calls = []\<rparr>
                    else generate_stream e file i q normalizedLang langDisplayName))"

text \<open>The generating branch of \<^verbatim>\<open>/explain-stream\<close> of the strict server. The model
  is the constant \<^verbatim>\<open>"llama3"\<close>; what \<^verbatim>\<open>buildPrompt\<close> or
  \<^verbatim>\<open>generateFallbackResponse\<close> throws reaches the \<^verbatim>\<open>catch (langError)\<close>.\<close>

definition generate_stream_fixed ::
  "env \<Rightarrow> stored option \<Rightarrow> int \<Rightarrow> problem \<Rightarrow> string \<Rightarrow> string \<Rightarrow> result"
where
  "generate_stream_fixed e file i q normalizedLang langDisplayName =
     (case buildPrompt_fixed q (Some normalizedLang) of
        Inl err \<Rightarrow> \<lparr>events = [Error err], store = file, calls = []\<rparr>
      | Inr prompt \<Rightarrow>
          let posted = [(''llama3'', prompt)];
              metadata = Metadata (title q) normalizedLang langDisplayName False
          in case infer e ''llama3'' prompt of
               Rejected msg \<Rightarrow>
                 (case generateFallbackResponse_fixed q (Some normalizedLang) of
                    Inl err \<Rightarrow> \<lparr>events = [metadata, Error err], store = file, calls = posted\<rparr>
                  | Inr fallbackResponse \<Rightarrow>
                      let saved = saveResponse_fixed e file i (title q) fallbackResponse
                                    (Some normalizedLang)
                      in \<lparr>events = [metadata, Data fallbackResponse True, Complete],
                          store = snd saved, calls = posted\<rparr>)
             | Streamed chunks fin \<Rightarrow>
                 let st = foldl (on_data (parse e))
                            \<lparr>fullResponse = [], jsonBuffer = [], written = [metadata]\<rparr> chunks
                 in (case fin of
                       Ended \<Rightarrow>
                         let st' = on_end (parse e) st;
                             saved = saveResponse_fixed e file i (title q) (fullResponse st')
                                       (Some normalizedLang)
                         in \<lparr>events = written st' @ [Complete], store = snd saved,
                             calls = posted\<rparr>
                     | Errored msg \<Rightarrow>
                         \<lparr>events = written st @ [Error (StreamError msg)], store = file,
                          calls = posted\<rparr>))"

text \<open>\<^verbatim>\<open>app.get("/explain-stream")\<close> of the strict server.\<close>

definition explain_stream_fixed :: "env \<Rightarrow> stored option \<Rightarrow> request \<Rightarrow> result" where
  "explain_stream_fixed e file req =
     (if length (questions e) = 0
      then \<lparr>events = [Error FailedToLoadQuestions], store = file, calls = []\<rparr>
      else
        let index = request_index req;
            forceRefresh = request_refresh req
        in if falsy (language_param req)
           then \<lparr>events = [Error LanguageRequired], store = file, calls = []\<rparr>
           else
             (case validateLanguage_fixed (language_param req) of
                Inl err \<Rightarrow> \<lparr>events = [Error err], store = file, calls = []\<rparr>
              | Inr normalizedLang \<Rightarrow>
                  let langDisplayName = getLanguageDisplayName_fixed normalizedLang
                  in case (case index of None \<Rightarrow> None
                           | Some i \<Rightarrow> map_option (Pair i) (question_at (questions e) i)) of
                       None \<Rightarrow>
                         \<lparr>events = [Error (QuestionNotFound index)], store = file, calls = []\<rparr>
                     | Some (i, q) \<Rightarrow>
                         (case loadStoredResponse e file of
                            None \<Rightarrow>
                              generate_stream_fixed e file i q normalizedLang langDisplayName
                          | Some storedResponse \<Rightarrow>
                              if \<not> forceRefresh \<and> questionIndex storedResponse = i \<and>
                                 language storedResponse = normalizedLang
                              then \<lparr>events =
                                      [Metadata (title q) normalizedLang langDisplayName True,
                                       Data (response storedResponse) False, Complete],
                                    store = file, calls = []\<rparr>
                              else generate_stream_fixed e file i q normalizedLang
                                     langDisplayName)))"

section \<open>The non-streaming endpoint\<close>

text \<open>The JSON body of a reply: a field the handler leaves out is \<open>None\<close>.\<close>

record body =
  body_title :: string
  body_language :: "string option"
  body_languageDisplay :: "string option"
  body_response :: string
  body_fromCache :: "bool option"
  body_fallback :: "bool option"

text \<open>A reply is a JSON body, or a status with a plain message. \<open>Unanswered\<close>: the
  handler's promise rejects and the handler has sent nothing.\<close>

datatype reply = Json body | Failure nat error | Unanswered string

record sync_result =
  reply :: reply
  store_after :: "stored option"
  posted_prompts :: "(string \<times> string) list"

text \<open>The \<^verbatim>\<open>for\<close> loop of the \<^verbatim>\<open>data\<close> listener of \<^verbatim>\<open>/explain\<close>: it only
  accumulates.\<close>

fun collect_lines :: "(string \<Rightarrow> parsed) \<Rightarrow> string list \<Rightarrow> string \<Rightarrow> string \<times> bool" where
  "collect_lines prs [] full = (full, True)"
| "collect_lines prs (l # ls) full =
     (if trim l = [] then collect_lines prs ls full
      else (case prs l of
              Malformed \<Rightarrow> (full, False)
            | Parsed t \<Rightarrow>
                if t = [] then collect_lines prs ls full
                else collect_lines prs ls (full @ t)))"

text \<open>The state of the listeners of \<^verbatim>\<open>/explain\<close>: \<^verbatim>\<open>fullResponse\<close> and
  \<^verbatim>\<open>jsonBuffer\<close>.\<close>

definition collect_data :: "(string \<Rightarrow> parsed) \<Rightarrow> string \<times> string \<Rightarrow> string \<Rightarrow> string \<times> string" where
  "collect_data prs st chunkStr =
     (let buf = snd st @ chunkStr;
          lines = split_nl buf
      in case collect_lines prs (butlast lines) (fst st) of
           (full, True) \<Rightarrow> (full, last lines)
         | (full, False) \<Rightarrow> (full, buf))"

definition collect_end :: "(string \<Rightarrow> parsed) \<Rightarrow> string \<times> string \<Rightarrow> string" where
  "collect_end prs st =
     (if trim (snd st) = [] then fst st
      else (case prs (snd st) of
              Malformed \<Rightarrow> fst st
            | Parsed t \<Rightarrow> if t = [] then fst st else fst st @ t))"

text \<open>The generating branch of \<^verbatim>\<open>/explain\<close> of the lenient server. On \<^verbatim>\<open>end\<close> it
  calls \<^verbatim>\<open>saveResponse(index, question.title, fullResponse)\<close> with no language and
  sends the title and the response only. The promise of the stream is returned, not
  awaited, so its rejection is outside the \<^verbatim>\<open>try\<close>.\<close>

definition generate :: "env \<Rightarrow> stored option \<Rightarrow> int \<Rightarrow> problem \<Rightarrow> string \<Rightarrow> string \<Rightarrow> sync_result"
where
  "generate e file i q normalizedLang langDisplayName =
     (let prompt = buildPrompt q (Some normalizedLang);
          posted = [(OLLAMA_MODEL e, prompt)]
      in case infer e (OLLAMA_MODEL e) prompt of
           Rejected msg \<Rightarrow>
             let fallbackResponse = generateFallbackResponse q (Some normalizedLang);
                 saved = saveResponse e file i (title q) fallbackResponse (Some normalizedLang)
             in \<lparr>reply = Json \<lparr>body_title = title q, body_language = Some normalizedLang,
                                body_languageDisplay = Some langDisplayName,
                                body_response = fallbackResponse, body_fromCache = None,
                                body_fallback = Some True\<rparr>,
                 store_after = snd saved, posted_prompts = posted\<rparr>
         | Streamed chunks fin \<Rightarrow>
             let st = foldl (collect_data (parse e)) ([], []) chunks
             in (case fin of
                   Ended \<Rightarrow>
                     let full = collect_end (parse e) st;
                         saved = saveResponse e file i (title q) full None
                     in \<lparr>reply = Json \<lparr>body_title = title q, body_language = None,
                                        body_languageDisplay = None, body_response = full,
                                        body_fromCache = None, body_fallback = None\<rparr>,
                         store_after = snd saved, posted_prompts = posted\<rparr>
                 | Errored msg \<Rightarrow>
                     \<lparr>reply = Unanswered msg, store_after = file, posted_prompts = posted\<rparr>))"

text \<open>\<^verbatim>\<open>app.get("/explain")\<close> of the lenient server.\<close>

definition explain :: "env \<Rightarrow> stored option \<Rightarrow> request \<Rightarrow> sync_result" where
  "explain e file req =
     (if length (questions e) = 0
      then \<lparr>reply = Failure 500 FailedToLoadQuestions, store_after = file, posted_prompts = []\<rparr>
      else
        let index = request_index req;
            forceRefresh = request_refresh req;
            lang = (if falsy (language_param req) then Some DEFAULT_LANGUAGE
                    else language_param req);
            normalizedLang = validateLanguage lang;
            langDisplayName = getLanguageDisplayName normalizedLang
        in case (case index of None \<Rightarrow> None
                 | Some i \<Rightarrow> map_option (Pair i) (question_at (questions e) i)) of
             None \<Rightarrow>
               \<lparr>reply = Failure 404 (QuestionNotFound index), store_after = file,
                posted_prompts = []\<rparr>
           | Some (i, q) \<Rightarrow>
               (case loadStoredResponse e file of
                  None \<Rightarrow> generate e file i q normalizedLang langDisplayName
                | Some storedResponse \<Rightarrow>
                    if \<not> forceRefresh \<and> questionIndex storedResponse = i \<and>
                       language storedResponse = normalizedLang
                    then \<lparr>reply = Json \<lparr>body_title = title q,
                                         body_language = Some normalizedLang,
                                         body_languageDisplay = Some langDisplayName,
                                         body_response = response storedResponse,
                                         body_fromCache = Some True, body_fallback = None\<rparr>,
                          store_after = file, posted_prompts = []\<rparr>
                    else generate e file i q normalizedLang langDisplayName))"

text \<open>The reply of the strict server with the fallback text (its
  \<^verbatim>\<open>catch (apiError)\<close>); what \<^verbatim>\<open>generateFallbackResponse\<close> throws reaches the
  \<^verbatim>\<open>catch (langError)\<close>.\<close>

definition fallback_reply ::
  "env \<Rightarrow> stored option \<Rightarrow> int \<Rightarrow> problem \<Rightarrow> string \<Rightarrow> string \<Rightarrow> (string \<times> string) list \<Rightarrow>
   sync_result"
where
  "fallback_reply e file i q normalizedLang langDisplayName posted =
     (case generateFallbackResponse_fixed q (Some normalizedLang) of
        Inl err \<Rightarrow> \<lparr>reply = Failure 400 err, store_after = file, posted_prompts = posted\<rparr>
      | Inr fallbackResponse \<Rightarrow>
          let saved = saveResponse_fixed e file i (title q) fallbackResponse
                        (Some normalizedLang)
          in \<lparr>reply = Json \<lparr>body_title = title q, body_language = Some normalizedLang,
                             body_languageDisplay = Some langDisplayName,
                             body_response = fallbackResponse, body_fromCache = None,
                             body_fallback = Some True\<rparr>,
              store_after = snd saved, posted_prompts = posted\<rparr>)"

text \<open>The generating branch of \<^verbatim>\<open>/explain\<close> of the strict server: the promise of the
  stream is awaited inside the \<^verbatim>\<open>try\<close>, so both a rejected request and a stream
  error reach the \<^verbatim>\<open>catch (apiError)\<close>.\<close>

definition generate_fixed ::
  "env \<Rightarrow> stored option \<Rightarrow> int \<Rightarrow> problem \<Rightarrow> string \<Rightarrow> string \<Rightarrow> sync_result"
where
  "generate_fixed e file i q normalizedLang langDisplayName =
     (case buildPrompt_fixed q (Some normalizedLang) of
        Inl err \<Rightarrow> \<lparr>reply = Failure 400 err, store_after = file, posted_prompts = []\<rparr>
      | Inr prompt \<Rightarrow>
          let posted = [(''llama3'', prompt)]
          in case infer e ''llama3'' prompt of
               Rejected msg \<Rightarrow> fallback_reply e file i q normalizedLang langDisplayName posted
             | Streamed chunks fin \<Rightarrow>
                 let st = foldl (collect_data (parse e)) ([], []) chunks
                 in (case fin of
                       Ended \<Rightarrow>
                         let full = collect_end (parse e) st;
                             saved = saveResponse_fixed e file i (title q) full
                                       (Some normalizedLang)
                         in \<lparr>reply = Json \<lparr>body_title = title q,
                                            body_language = Some normalizedLang,
                                            body_languageDisplay = Some langDisplayName,
                                            body_response = full, body_fromCache = None,
                                            body_fallback = None\<rparr>,
                             store_after = snd saved, posted_prompts = posted\<rparr>
                     | Errored msg \<Rightarrow>
                         fallback_reply e file i q normalizedLang langDisplayName posted))"

text \<open>\<^verbatim>\<open>app.get("/explain")\<close> of the strict server.\<close>

definition explain_fixed :: "env \<Rightarrow> stored option \<Rightarrow> request \<Rightarrow> sync_result" where
  "explain_fixed e file req =
     (if length (questions e) = 0
      then \<lparr>reply = Failure 500 FailedToLoadQuestions, store_after = file, posted_prompts = []\<rparr>
      else
        let index = request_index req;
            forceRefresh = request_refresh req
        in if falsy (language_param req)
           then \<lparr>reply = Failure 400 LanguageRequired, store_after = file, posted_prompts = []\<rparr>
           else
             (case validateLanguage_fixed (language_param req) of
                Inl err \<Rightarrow> \<lparr>reply = Failure 400 err, store_after = file, posted_prompts = []\<rparr>
              | Inr normalizedLang \<Rightarrow>
                  let langDisplayName = getLanguageDisplayName_fixed normalizedLang
                  in case (case index of None \<Rightarrow> None
                           | Some i \<Rightarrow> map_option (Pair i) (question_at (questions e) i)) of
                       None \<Rightarrow>
                         \<lparr>reply = Failure 404 (QuestionNotFound index), store_after = file,
                          posted_prompts = []\<rparr>
                     | Some (i, q) \<Rightarrow>
                         (case loadStoredResponse e file of
                            None \<Rightarrow> generate_fixed e file i q normalizedLang langDisplayName
                          | Some storedResponse \<Rightarrow>
                              if \<not> forceRefresh \<and> questionIndex storedResponse = i \<and>
                                 language storedResponse = normalizedLang
                              then \<lparr>reply = Json \<lparr>body_title = title q,
                                                   body_language = Some normalizedLang,
                                                   body_languageDisplay = Some langDisplayName,
                                                   body_response = response storedResponse,
                                                   body_fromCache = Some True,
                                                   body_fallback = None\<rparr>,
                                    store_after = file, posted_prompts = []\<rparr>
                              else generate_fixed e file i q normalizedLang langDisplayName)))"

section \<open>Properties\<close>

text \<open>The back quote, and a search for a match of a pattern anywhere in a text. A text
  contains a fenced span when the pattern of the fenced code block matches somewhere.\<close>

definition backtick :: char where "backtick = CHR 0x60"

fun find_match :: "atom list \<Rightarrow> char option \<Rightarrow> string \<Rightarrow> bool" where
  "find_match r p [] = (case rmatch r p [] of Some n \<Rightarrow> True | None \<Rightarrow> False)"
| "find_match r p (c # s) =
     (case rmatch r p (c # s) of Some n \<Rightarrow> True | None \<Rightarrow> find_match r (Some c) s)"

definition contains_fence :: "string \<Rightarrow> bool" where
  "contains_fence s = find_match pat_fence None s"

text \<open>The concatenation of the payloads of the data events, in emission order.\<close>

fun concat_data :: "event list \<Rightarrow> string" where
  "concat_data [] = []"
| "concat_data (Data t f # es) = t @ concat_data es"
| "concat_data (Metadata a b c d # es) = concat_data es"
| "concat_data (Complete # es) = concat_data es"
| "concat_data (Error err # es) = concat_data es"

fun all_data :: "event list \<Rightarrow> bool" where
  "all_data [] = True"
| "all_data (Data t f # es) = all_data es"
| "all_data (Metadata a b c d # es) = False"
| "all_data (Complete # es) = False"
| "all_data (Error err # es) = False"

text \<open>The order of a well-formed stream: at most one metadata event, in front; then data
  events; then exactly one terminal event, and nothing after it.\<close>

fun body_ok :: "event list \<Rightarrow> bool" where
  "body_ok [] = False"
| "body_ok (Data t f # es) = body_ok es"
| "body_ok (Complete # es) = (es = [])"
| "body_ok (Error err # es) = (es = [])"
| "body_ok (Metadata a b c d # es) = False"

fun sse_ok :: "event list \<Rightarrow> bool" where
  "sse_ok (Metadata a b c d # es) = body_ok es"
| "sse_ok es = body_ok es"

text \<open>A stream is served from the cache when its metadata event says so.\<close>

fun served_from_cache :: "event list \<Rightarrow> bool" where
  "served_from_cache (Metadata a b c fromCache # es) = fromCache"
| "served_from_cache es = False"

text \<open>The cache-hit condition in the words of the specification: no forced refresh, a
  stored response exists, and its question index and language are those of the request.\<close>

definition cache_matches :: "bool \<Rightarrow> stored option \<Rightarrow> int \<Rightarrow> string \<Rightarrow> bool" where
  "cache_matches forceRefresh st i L =
     (case st of
        None \<Rightarrow> False
      | Some sr \<Rightarrow> \<not> forceRefresh \<and> questionIndex sr = i \<and> language sr = L)"

text \<open>The language a request asks for on the lenient server, before validation.\<close>

definition requested_language :: "request \<Rightarrow> string option" where
  "requested_language req =
     (if falsy (language_param req) then Some DEFAULT_LANGUAGE else language_param req)"

text \<open>The data events the listeners write for a list of fragments: plain data events,
  none tagged as a fallback.\<close>

definition relayed :: "string list \<Rightarrow> event list" where
  "relayed ts = map (\<lambda>t. Data t False) ts"

text \<open>The fragments the inference endpoint sent, in the words of the specification: its
  output is a sequence of newline-delimited records, each carrying a text fragment. The
  fragment of a line is the non-empty \<^verbatim>\<open>response\<close> of the record it parses to; the
  fragments of an output are those of its lines, in order, whatever the chunks it arrived
  in.\<close>

definition fragment_of :: "(string \<Rightarrow> parsed) \<Rightarrow> string \<Rightarrow> string option" where
  "fragment_of prs l =
     (if trim l = [] then None
      else (case prs l of
              Malformed \<Rightarrow> None
            | Parsed t \<Rightarrow> if t = [] then None else Some t))"

definition record_fragments :: "(string \<Rightarrow> parsed) \<Rightarrow> string \<Rightarrow> string list" where
  "record_fragments prs output = List.map_filter (fragment_of prs) (split_nl output)"

text \<open>A line is in order when it is blank or parses; an output is in order when every
  line of it that a newline ends is.\<close>

definition line_ok :: "(string \<Rightarrow> parsed) \<Rightarrow> string \<Rightarrow> bool" where
  "line_ok prs l =
     (if trim l = [] then True else (case prs l of Malformed \<Rightarrow> False | Parsed t \<Rightarrow> True))"

definition complete_lines_ok :: "(string \<Rightarrow> parsed) \<Rightarrow> string \<Rightarrow> bool" where
  "complete_lines_ok prs output = list_all (line_ok prs) (butlast (split_nl output))"

text \<open>Concrete inputs for the examples: a catalog of one problem, an inference
  endpoint that refuses the connection, one whose stream breaks, and one that streams two
  chunks; the example parser reads a line as a record whose \<^verbatim>\<open>response\<close> is the
  line itself.\<close>

definition problem_example :: problem where
  "problem_example =
     \<lparr>title = ''Two Sum'', difficulty = ''Easy'', question = ''Find two numbers.'',
      input_format = ''An array'', output_format = ''Two indices'', constraints = ''n > 1'',
      hint = ''Use a map'', sample_input = ''2 7 11 15'', sample_output = ''0 1''\<rparr>"

definition env_example :: env where
  "env_example =
     \<lparr>questions = [problem_example], parse = (\<lambda>l. Parsed l),
      infer = (\<lambda>m p. Rejected ''ECONNREFUSED''),
      now = ''2025-01-01T00:00:00.000Z'', read_ok = True, write_ok = True,
      OLLAMA_MODEL = ''codestral:latest''\<rparr>"

definition env_stream_error :: env where
  "env_stream_error = env_example\<lparr>infer := (\<lambda>m p. Streamed [] (Errored ''socket hang up''))\<rparr>"

definition env_streaming :: env where
  "env_streaming =
     env_example\<lparr>infer := (\<lambda>m p. Streamed [''Use a map. \<newline>'', ''Scan once.\<newline>''] Ended)\<rparr>"

text \<open>An inference endpoint whose chunks cut a line in two and whose last line no
  newline ends.\<close>

definition env_unterminated :: env where
  "env_unterminated =
     env_example\<lparr>infer := (\<lambda>m p. Streamed [''Use a map. \<newline>Scan'', '' once.''] Ended)\<rparr>"

text \<open>An inference endpoint whose stream breaks after one complete line and the
  beginning of the next.\<close>

definition env_broken :: env where
  "env_broken =
     env_example\<lparr>infer := (\<lambda>m p. Streamed [''Use a map. \<newline>Scan''] (Errored ''socket hang up''))\<rparr>"

text \<open>An inference endpoint whose second line cannot be decoded (\<^verbatim>\<open>JSON.parse\<close> throws
  on everything but the first and the third line), followed by a chunk with a third line.\<close>

definition env_malformed :: env where
  "env_malformed =
     env_example\<lparr>parse := (\<lambda>l. if l = ''A'' \<or> l = ''B'' then Parsed l else Malformed),
       infer := (\<lambda>m p. Streamed [''A\<newline>BAD\<newline>'', ''B\<newline>''] Ended)\<rparr>"

definition stored_example :: stored where
  "stored_example =
     \<lparr>questionIndex = 0, stored_title = ''Two Sum'', language = ''python'',
      languageDisplay = None, response = ''Think of a map.'',
      timestamp = ''2024-12-31T00:00:00.000Z''\<rparr>"

definition request_example :: request where
  "request_example =
     \<lparr>index_param = Some ''0'', language_param = Some ''Python'', refresh_param = None\<rparr>"

definition request_java :: request where
  "request_java =
     \<lparr>index_param = Some ''0'', language_param = Some ''Java'', refresh_param = None\<rparr>"

text \<open>The number of single-character atoms of a pattern: no match is shorter.\<close>

fun min_len :: "atom list \<Rightarrow> nat" where
  "min_len [] = 0"
| "min_len (One k # r) = Suc (min_len r)"
| "min_len (a # r) = min_len r"

section \<open>Language validation is case-insensitive and follows one policy per server\<close>

lemma lower_char_idem: "lower_char (lower_char c) = lower_char c"
proof -
  define n where "n = (of_char c :: nat)"
  show ?thesis
  proof (cases "(65 \<le> n \<and> n \<le> 90) \<or> (192 \<le> n \<and> n \<le> 222 \<and> n \<noteq> 215)")
    case True
    then have 1: "lower_char c = char_of (n + 32)"
      by (simp add: lower_char_def n_def Let_def)
    have 2: "(of_char (char_of (n + 32) :: char) :: nat) = n + 32"
      using True by auto
    have "lower_char (char_of (n + 32)) = char_of (n + 32)"
      unfolding lower_char_def Let_def 2 using True by auto
    then show ?thesis using 1 by simp
  next
    case False
    then have "lower_char c = c" by (auto simp add: lower_char_def n_def Let_def)
    then show ?thesis by simp
  qed
qed

lemma toLowerCase_idem: "toLowerCase (toLowerCase s) = toLowerCase s"
  by (simp add: toLowerCase_def lower_char_idem)

lemma supported_lower: "l \<in> set SUPPORTED_LANGUAGES \<Longrightarrow> toLowerCase l = l"
proof -
  have "toLowerCase ''python'' = ''python''" by code_simp
  moreover have "toLowerCase ''javascript'' = ''javascript''" by code_simp
  moreover have "toLowerCase ''java'' = ''java''" by code_simp
  moreover have "toLowerCase ''cpp'' = ''cpp''" by code_simp
  moreover have "toLowerCase ''c'' = ''c''" by code_simp
  ultimately show "l \<in> set SUPPORTED_LANGUAGES \<Longrightarrow> toLowerCase l = l"
    unfolding SUPPORTED_LANGUAGES_def by auto
qed

lemma toLowerCase_Nil: "toLowerCase s = [] \<longleftrightarrow> s = []"
  by (simp add: toLowerCase_def)

lemma nil_unsupported: "[] \<notin> set SUPPORTED_LANGUAGES"
  by (simp add: SUPPORTED_LANGUAGES_def)

text \<open>C6: the strict server returns the lower-case form of a supported language and
  raises for an absent, an empty or an unsupported one; the lenient server returns the
  lower-case form of a supported language and the default \<open>python\<close> otherwise. The
  answer depends on the lower-case form only, and an unsupported language such as
  \<open>rust\<close>, or an empty one, is never returned as it is.\<close>

theorem validateLanguage_policy:
  "validateLanguage_fixed None = Inl LanguageRequired \<and>
   validateLanguage_fixed (Some s) =
     (if s = [] then Inl LanguageRequired
      else if toLowerCase s \<in> set SUPPORTED_LANGUAGES then Inr (toLowerCase s)
      else Inl (UnsupportedLanguage s)) \<and>
   validateLanguage None = DEFAULT_LANGUAGE \<and>
   validateLanguage (Some s) =
     (if toLowerCase s \<in> set SUPPORTED_LANGUAGES then toLowerCase s else DEFAULT_LANGUAGE) \<and>
   validateLanguage (Some s) \<in> set SUPPORTED_LANGUAGES \<and>
   (case validateLanguage_fixed (Some s) of
      Inl err \<Rightarrow> True | Inr l \<Rightarrow> l \<in> set SUPPORTED_LANGUAGES) \<and>
   validateLanguage (Some (toLowerCase s)) = validateLanguage (Some s) \<and>
   isl (validateLanguage_fixed (Some (toLowerCase s))) = isl (validateLanguage_fixed (Some s)) \<and>
   validateLanguage_fixed (Some ''rust'') = Inl (UnsupportedLanguage ''rust'') \<and>
   validateLanguage_fixed (Some []) = Inl LanguageRequired \<and>
   validateLanguage (Some ''rust'') = ''python'' \<and>
   validateLanguage (Some []) = ''python''"
proof -
  have rust: "toLowerCase ''rust'' = ''rust''"
    by code_simp
  have py: "DEFAULT_LANGUAGE \<in> set SUPPORTED_LANGUAGES"
    by (simp add: DEFAULT_LANGUAGE_def SUPPORTED_LANGUAGES_def)
  have r: "''rust'' \<notin> set SUPPORTED_LANGUAGES"
    by (simp add: SUPPORTED_LANGUAGES_def)
  show ?thesis
    using py r nil_unsupported
    by (simp add: validateLanguage_def validateLanguage_fixed_def Let_def toLowerCase_idem
        toLowerCase_Nil rust) (simp add: DEFAULT_LANGUAGE_def toLowerCase_def)
qed

section \<open>The sanitizer leaves no fenced span\<close>

lemma count_list_drop: "count_list (drop n s) x \<le> count_list s x"
proof (induction s arbitrary: n)
  case Nil
  then show ?case by simp
next
  case (Cons a s)
  show ?case
  proof (cases n)
    case 0
    then show ?thesis by simp
  next
    case (Suc m)
    have "count_list (drop m s) x \<le> count_list s x" by (rule Cons.IH)
    then show ?thesis using Suc by simp
  qed
qed

lemma replaceAll_count:
  "x \<notin> set rep \<Longrightarrow> count_list (replaceAll r rep p s) x \<le> count_list s x"
proof (induction r rep p s rule: replaceAll.induct)
  case (1 r rep p)
  then show ?case by (simp split: option.splits)
next
  case (2 r rep p c s)
  show ?case
  proof (cases "rmatch r p (c # s)")
    case None
    then show ?thesis using 2 by auto
  next
    case (Some m)
    show ?thesis
    proof (cases m)
      case 0
      then show ?thesis using 2 Some by auto
    next
      case (Suc n)
      have "count_list (replaceAll r rep (Some (last (take (Suc n) (c # s)))) (drop n s)) x
              \<le> count_list (drop n s) x"
        using 2 Some Suc by simp
      also have "\<dots> \<le> count_list s x" by (rule count_list_drop)
      finally have "count_list (replaceAll r rep (Some (last (take (Suc n) (c # s)))) (drop n s)) x
              \<le> count_list s x" .
      moreover have "count_list rep x = 0" using "2.prems" by simp
      moreover have "replaceAll r rep p (c # s) =
          rep @ replaceAll r rep (Some (last (take (Suc n) (c # s)))) (drop n s)"
        using Some Suc by simp
      ultimately show ?thesis by (auto simp del: replaceAll.simps take_Suc_Cons)
    qed
  qed
qed

lemma replace_count: "count_list (replace r [] s) x \<le> count_list s x"
  unfolding replace_def by (rule replaceAll_count) simp

lemma strip_patterns_count: "count_list (strip_patterns ps s) x \<le> count_list s x"
proof (induction ps arbitrary: s)
  case Nil
  then show ?case by simp
next
  case (Cons a ps)
  have "count_list (strip_patterns ps (replace a [] s)) x \<le> count_list (replace a [] s) x"
    by (rule Cons.IH)
  also have "\<dots> \<le> count_list s x" by (rule replace_count)
  finally show ?case by simp
qed

lemma rmatch_inline_tail:
  "rmatch [Star (NoneOf [backtick]), One (Lit backtick)] p s =
     (if backtick \<in> set s then Some (Suc (length (takeWhile (\<lambda>c. c \<noteq> backtick) s))) else None)"
  by (induction s arbitrary: p) auto

lemma rmatch_inline:
  "rmatch pat_inline p (c # s) =
     (if c = backtick \<and> backtick \<in> set s
      then Some (Suc (Suc (length (takeWhile (\<lambda>c. c \<noteq> backtick) s)))) else None)"
proof -
  have h: "pat_inline = One (Lit backtick) # [Star (NoneOf [backtick]), One (Lit backtick)]"
    by (simp add: pat_inline_def lit_def backtick_def)
  show ?thesis unfolding h by (simp add: rmatch_inline_tail)
qed

lemma drop_takeWhile_backtick:
  "backtick \<in> set s \<Longrightarrow>
     drop (length (takeWhile (\<lambda>c. c \<noteq> backtick) s)) s = backtick # tl (dropWhile (\<lambda>c. c \<noteq> backtick) s)"
  by (induction s) auto

lemma inline_count: "count_list (replaceAll pat_inline [] p s) backtick \<le> 1"
proof (induction s arbitrary: p rule: length_induct)
  case (1 s)
  show ?case
  proof (cases s)
    case Nil
    then show ?thesis by (simp split: option.splits)
  next
    case (Cons c s')
    show ?thesis
    proof (cases "c = backtick \<and> backtick \<in> set s'")
      case False
      then have m: "rmatch pat_inline p (c # s') = None" by (simp add: rmatch_inline)
      have ih: "count_list (replaceAll pat_inline [] (Some c) s') backtick \<le> 1"
        using 1 Cons by simp
      show ?thesis
      proof (cases "c = backtick")
        case True
        then have "backtick \<notin> set s'" using False by simp
        then have "count_list s' backtick = 0" by simp
        moreover have "count_list (replaceAll pat_inline [] (Some c) s') backtick \<le> count_list s' backtick"
          by (rule replaceAll_count) simp
        ultimately show ?thesis using Cons m True by simp
      next
        case False
        then show ?thesis using Cons m ih by simp
      qed
    next
      case True
      let ?k = "length (takeWhile (\<lambda>c. c \<noteq> backtick) s')"
      have m: "rmatch pat_inline p (c # s') = Some (Suc (Suc ?k))"
        using True by (simp add: rmatch_inline)
      have "length (drop (Suc ?k) s') < length s" using Cons by simp
      then have "count_list (replaceAll pat_inline [] (Some (last (take (Suc (Suc ?k)) (c # s')))) (drop (Suc ?k) s')) backtick \<le> 1"
        using 1 by blast
      then show ?thesis using Cons m by simp
    qed
  qed
qed

lemma clean_backticks: "count_list (cleanResponseText t) backtick \<le> 1"
proof -
  have "count_list (cleanResponseText t) backtick
          \<le> count_list (replace pat_inline [] (replace pat_fence [] t)) backtick"
    unfolding cleanResponseText_def by (rule strip_patterns_count)
  also have "\<dots> \<le> 1" unfolding replace_def by (rule inline_count)
  finally show ?thesis .
qed

lemma clean_fixed_backticks: "count_list (cleanResponseText_fixed t) backtick \<le> 1"
proof -
  let ?a = "replace pat_inline [] (replace pat_fence [] t)"
  let ?b = "strip_patterns codePatterns_fixed ?a"
  let ?c = "replace pat_bare_name [] (replace pat_object [] (replace pat_pair [] (replace pat_slice [] ?b)))"
  have "count_list (cleanResponseText_fixed t) backtick \<le> count_list ?c backtick"
    unfolding cleanResponseText_fixed_def replace_def
    by (rule replaceAll_count) (simp add: backtick_def)
  also have "\<dots> \<le> count_list ?b backtick"
    by (meson replace_count order_trans)
  also have "\<dots> \<le> count_list ?a backtick" by (rule strip_patterns_count)
  also have "\<dots> \<le> 1" unfolding replace_def by (rule inline_count)
  finally show ?thesis .
qed

lemma rmatch_lit_cons:
  "rmatch (One (Lit a) # r) p s = Some n \<Longrightarrow>
     \<exists>s' m. s = a # s' \<and> rmatch r (Some a) s' = Some m \<and> n = Suc m"
  by (cases s) (auto split: if_splits)

lemma rmatch_fence_count:
  assumes "rmatch pat_fence p s = Some n"
  shows "3 \<le> count_list s backtick"
proof -
  let ?r = "[LazyStar AnyChar, One (Lit backtick), One (Lit backtick), One (Lit backtick)]"
  have "rmatch (One (Lit backtick) # One (Lit backtick) # One (Lit backtick) # ?r) p s = Some n"
    using assms by (simp add: pat_fence_def lit_def backtick_def)
  then obtain s1 n1 where 1: "s = backtick # s1"
      "rmatch (One (Lit backtick) # One (Lit backtick) # ?r) (Some backtick) s1 = Some n1"
    using rmatch_lit_cons by blast
  then obtain s2 n2 where 2: "s1 = backtick # s2"
      "rmatch (One (Lit backtick) # ?r) (Some backtick) s2 = Some n2"
    using rmatch_lit_cons by blast
  then obtain s3 n3 where 3: "s2 = backtick # s3"
    using rmatch_lit_cons by blast
  show ?thesis using 1 2 3 by simp
qed

lemma find_match_fence_count:
  "find_match pat_fence p s \<Longrightarrow> 3 \<le> count_list s backtick"
proof (induction s arbitrary: p)
  case Nil
  then show ?case by (simp add: pat_fence_def lit_def)
next
  case (Cons c s)
  show ?case
  proof (cases "rmatch pat_fence p (c # s)")
    case None
    then have "find_match pat_fence (Some c) s" using Cons.prems by simp
    then have "3 \<le> count_list s backtick" by (rule Cons.IH)
    then show ?thesis by simp
  next
    case (Some n)
    then show ?thesis by (rule rmatch_fence_count)
  qed
qed

text \<open>C4: for every text, the output of \<open>cleanResponseText\<close> (of either server)
  contains no fenced span: the fenced and the inline spans are removed first, which leaves
  at most one back quote, and no later step adds one.\<close>

theorem sanitizer_output_has_no_fence:
  "\<not> contains_fence (cleanResponseText t) \<and> \<not> contains_fence (cleanResponseText_fixed t)"
proof -
  have "\<not> 3 \<le> count_list (cleanResponseText t) backtick"
    using clean_backticks [of t] by simp
  moreover have "\<not> 3 \<le> count_list (cleanResponseText_fixed t) backtick"
    using clean_fixed_backticks [of t] by simp
  ultimately show ?thesis
    unfolding contains_fence_def using find_match_fence_count by blast
qed

section \<open>The store returns what was saved\<close>

text \<open>C5: on the strict server, when the file system calls succeed, \<open>save\<close> with a
  supported language followed by \<open>load\<close> returns a record with the index, the language
  and the sanitized text.\<close>

theorem save_then_load:
  assumes "L \<in> set SUPPORTED_LANGUAGES" and "write_ok e" and "read_ok e"
  shows "fst (saveResponse_fixed e file i t txt (Some L)) \<and>
         loadStoredResponse e (snd (saveResponse_fixed e file i t txt (Some L))) =
           Some \<lparr>questionIndex = i, stored_title = t, language = L, languageDisplay = None,
                 response = cleanResponseText_fixed txt, timestamp = now e\<rparr>"
proof -
  have "L \<noteq> []" using assms(1) nil_unsupported by auto
  moreover have "toLowerCase L = L" using assms(1) by (rule supported_lower)
  ultimately have "validateLanguage_fixed (Some L) = Inr L"
    using assms(1) by (simp add: validateLanguage_fixed_def)
  then show ?thesis
    using assms(2,3) by (simp add: saveResponse_fixed_def loadStoredResponse_def)
qed

theorem save_then_load_witness:
  "loadStoredResponse env_example
     (snd (saveResponse_fixed env_example None 3 ''Two Sum'' ''Use a `dict` here'' (Some ''java''))) =
   Some \<lparr>questionIndex = 3, stored_title = ''Two Sum'', language = ''java'',
         languageDisplay = None, response = ''Use a  here'',
         timestamp = ''2025-01-01T00:00:00.000Z''\<rparr>"
proof -
  have c: "cleanResponseText_fixed ''Use a `dict` here'' = ''Use a  here''"
    by code_simp
  have s: "''java'' \<in> set SUPPORTED_LANGUAGES" by (simp add: SUPPORTED_LANGUAGES_def)
  have w: "write_ok env_example" "read_ok env_example" by (simp_all add: env_example_def)
  show ?thesis
    using save_then_load [OF s w, of None 3 "''Two Sum''" "''Use a `dict` here''"] c
    by (simp add: env_example_def)
qed

section \<open>The events of a stream\<close>

lemma validated_is_supported:
  "validateLanguage_fixed x = Inr L \<Longrightarrow> L \<in> set SUPPORTED_LANGUAGES"
  by (auto simp: validateLanguage_fixed_def Let_def split: option.splits if_splits)

lemma validate_validated:
  assumes "validateLanguage_fixed x = Inr L"
  shows "validateLanguage_fixed (Some L) = Inr L"
proof -
  have s: "L \<in> set SUPPORTED_LANGUAGES" using assms by (rule validated_is_supported)
  then have "L \<noteq> []" using nil_unsupported by auto
  moreover have "toLowerCase L = L" using s by (rule supported_lower)
  ultimately show ?thesis using s by (simp add: validateLanguage_fixed_def)
qed

lemma validated_not_falsy: "validateLanguage_fixed x = Inr L \<Longrightarrow> \<not> falsy x"
  by (auto simp: validateLanguage_fixed_def falsy_def split: option.splits if_splits)

lemma concat_data_append: "concat_data (xs @ ys) = concat_data xs @ concat_data ys"
  by (induction xs rule: concat_data.induct) auto

lemma all_data_append: "all_data (xs @ ys) = (all_data xs \<and> all_data ys)"
  by (induction xs rule: all_data.induct) auto

lemma body_ok_data_terminal:
  "all_data ds \<Longrightarrow> body_ok (ds @ [Complete]) \<and> body_ok (ds @ [Error err])"
  by (induction ds rule: all_data.induct) auto

text \<open>What the loop over the lines appends: data events only, whose payloads are what
  it appends to the accumulator.\<close>

lemma relay_lines_appends:
  "\<exists>ds. all_data ds \<and> fst (relay_lines prs ls full evs) = (full @ concat_data ds, evs @ ds)"
proof (induction ls arbitrary: full evs)
  case Nil
  have "all_data [] \<and> fst (relay_lines prs [] full evs) = (full @ concat_data [], evs @ [])"
    by simp
  then show ?case by blast
next
  case (Cons l ls)
  show ?case
  proof (cases "trim l = []")
    case True
    then show ?thesis using Cons.IH [of full evs] by simp
  next
    case False
    show ?thesis
    proof (cases "prs l")
      case Malformed
      have "all_data [] \<and> fst (relay_lines prs (l # ls) full evs) = (full @ concat_data [], evs @ [])"
        using False Malformed by simp
      then show ?thesis by blast
    next
      case (Parsed t)
      show ?thesis
      proof (cases "t = []")
        case True
        then show ?thesis using False Parsed Cons.IH [of full evs] by simp
      next
        case nonempty: False
        obtain ds where ds: "all_data ds"
          "fst (relay_lines prs ls (full @ t) (evs @ [Data t False])) =
             ((full @ t) @ concat_data ds, (evs @ [Data t False]) @ ds)"
          using Cons.IH [of "full @ t" "evs @ [Data t False]"] by blast
        have "all_data (Data t False # ds) \<and>
              fst (relay_lines prs (l # ls) full evs) =
                (full @ concat_data (Data t False # ds), evs @ (Data t False # ds))"
          using False Parsed nonempty ds by simp
        then show ?thesis by blast
      qed
    qed
  qed
qed

lemma on_data_appends:
  "\<exists>ds. all_data ds \<and> fullResponse (on_data prs st c) = fullResponse st @ concat_data ds \<and>
        written (on_data prs st c) = written st @ ds"
proof -
  let ?ls = "butlast (split_nl (jsonBuffer st @ c))"
  obtain ds where ds: "all_data ds"
    "fst (relay_lines prs ?ls (fullResponse st) (written st)) =
       (fullResponse st @ concat_data ds, written st @ ds)"
    using relay_lines_appends by blast
  obtain b where b: "relay_lines prs ?ls (fullResponse st) (written st) =
       ((fullResponse st @ concat_data ds, written st @ ds), b)"
    using ds(2) by (cases "relay_lines prs ?ls (fullResponse st) (written st)") auto
  have "fullResponse (on_data prs st c) = fullResponse st @ concat_data ds \<and>
        written (on_data prs st c) = written st @ ds"
    using b by (cases b) (simp_all add: on_data_def Let_def)
  then show ?thesis using ds(1) by blast
qed

lemma foldl_on_data_appends:
  "\<exists>ds. all_data ds \<and>
        fullResponse (foldl (on_data prs) st cs) = fullResponse st @ concat_data ds \<and>
        written (foldl (on_data prs) st cs) = written st @ ds"
proof (induction cs arbitrary: st)
  case Nil
  have "all_data [] \<and> fullResponse (foldl (on_data prs) st []) = fullResponse st @ concat_data [] \<and>
        written (foldl (on_data prs) st []) = written st @ []"
    by simp
  then show ?case by blast
next
  case (Cons c cs)
  obtain d1 where d1: "all_data d1"
    "fullResponse (on_data prs st c) = fullResponse st @ concat_data d1"
    "written (on_data prs st c) = written st @ d1"
    using on_data_appends by blast
  obtain d2 where d2: "all_data d2"
    "fullResponse (foldl (on_data prs) (on_data prs st c) cs) =
       fullResponse (on_data prs st c) @ concat_data d2"
    "written (foldl (on_data prs) (on_data prs st c) cs) = written (on_data prs st c) @ d2"
    using Cons.IH by blast
  have "all_data (d1 @ d2) \<and>
        fullResponse (foldl (on_data prs) st (c # cs)) = fullResponse st @ concat_data (d1 @ d2) \<and>
        written (foldl (on_data prs) st (c # cs)) = written st @ (d1 @ d2)"
    using d1 d2 by (simp add: all_data_append concat_data_append)
  then show ?case by blast
qed

lemma on_end_appends:
  "\<exists>ds. all_data ds \<and> fullResponse (on_end prs st) = fullResponse st @ concat_data ds \<and>
        written (on_end prs st) = written st @ ds"
proof (cases "trim (jsonBuffer st) = []")
  case True
  then have "all_data [] \<and> fullResponse (on_end prs st) = fullResponse st @ concat_data [] \<and>
        written (on_end prs st) = written st @ []"
    by (simp add: on_end_def)
  then show ?thesis by blast
next
  case False
  show ?thesis
  proof (cases "prs (jsonBuffer st)")
    case Malformed
    then have "all_data [] \<and> fullResponse (on_end prs st) = fullResponse st @ concat_data [] \<and>
        written (on_end prs st) = written st @ []"
      using False by (simp add: on_end_def)
    then show ?thesis by blast
  next
    case (Parsed t)
    show ?thesis
    proof (cases "t = []")
      case True
      then have "all_data [] \<and> fullResponse (on_end prs st) = fullResponse st @ concat_data [] \<and>
          written (on_end prs st) = written st @ []"
        using False Parsed by (simp add: on_end_def)
      then show ?thesis by blast
    next
      case nonempty: False
      then have "all_data [Data t False] \<and>
          fullResponse (on_end prs st) = fullResponse st @ concat_data [Data t False] \<and>
          written (on_end prs st) = written st @ [Data t False]"
        using False Parsed by (simp add: on_end_def)
      then show ?thesis by blast
    qed
  qed
qed

text \<open>The stream listeners, from the metadata event to the end of the stream.\<close>

lemma relayed_stream:
  "\<exists>ds. all_data ds \<and>
        written (foldl (on_data prs) \<lparr>fullResponse = [], jsonBuffer = [], written = [m]\<rparr> cs) = m # ds"
proof -
  obtain ds where "all_data ds"
    "written (foldl (on_data prs) \<lparr>fullResponse = [], jsonBuffer = [], written = [m]\<rparr> cs) =
       written \<lparr>fullResponse = [], jsonBuffer = [], written = [m]\<rparr> @ ds"
    using foldl_on_data_appends by blast
  then show ?thesis by auto
qed

lemma relayed_stream_end:
  "\<exists>ds. all_data ds \<and>
        written (on_end prs (foldl (on_data prs) \<lparr>fullResponse = [], jsonBuffer = [], written = [m]\<rparr> cs))
          = m # ds \<and>
        fullResponse (on_end prs (foldl (on_data prs) \<lparr>fullResponse = [], jsonBuffer = [], written = [m]\<rparr> cs))
          = concat_data ds"
proof -
  let ?st0 = "\<lparr>fullResponse = [], jsonBuffer = [], written = [m]\<rparr>"
  obtain d1 where d1: "all_data d1"
    "fullResponse (foldl (on_data prs) ?st0 cs) = fullResponse ?st0 @ concat_data d1"
    "written (foldl (on_data prs) ?st0 cs) = written ?st0 @ d1"
    using foldl_on_data_appends by blast
  obtain d2 where d2: "all_data d2"
    "fullResponse (on_end prs (foldl (on_data prs) ?st0 cs)) =
       fullResponse (foldl (on_data prs) ?st0 cs) @ concat_data d2"
    "written (on_end prs (foldl (on_data prs) ?st0 cs)) =
       written (foldl (on_data prs) ?st0 cs) @ d2"
    using on_end_appends by blast
  have "all_data (d1 @ d2) \<and> written (on_end prs (foldl (on_data prs) ?st0 cs)) = m # (d1 @ d2) \<and>
        fullResponse (on_end prs (foldl (on_data prs) ?st0 cs)) = concat_data (d1 @ d2)"
    using d1 d2 by (simp add: all_data_append concat_data_append)
  then show ?thesis by blast
qed

text \<open>The shape of every run of the generating branch of the lenient server.\<close>

lemma generate_stream_shape:
  "\<exists>ds t. all_data ds \<and>
     events (generate_stream e file i q L D) = Metadata (title q) L D False # ds @ [t] \<and>
     calls (generate_stream e file i q L D) = [(OLLAMA_MODEL e, buildPrompt q (Some L))] \<and>
     (case t of
        Complete \<Rightarrow>
          store (generate_stream e file i q L D) =
            snd (saveResponse e file i (title q) (concat_data ds) (Some L))
      | Error err \<Rightarrow> store (generate_stream e file i q L D) = file
      | Metadata a b c d \<Rightarrow> False
      | Data x f \<Rightarrow> False)"
proof (cases "infer e (OLLAMA_MODEL e) (buildPrompt q (Some L))")
  case (Rejected msg)
  let ?fb = "generateFallbackResponse q (Some L)"
  have "all_data [Data ?fb True] \<and>
     events (generate_stream e file i q L D) = Metadata (title q) L D False # [Data ?fb True] @ [Complete] \<and>
     calls (generate_stream e file i q L D) = [(OLLAMA_MODEL e, buildPrompt q (Some L))] \<and>
     (case Complete of
        Complete \<Rightarrow>
          store (generate_stream e file i q L D) =
            snd (saveResponse e file i (title q) (concat_data [Data ?fb True]) (Some L))
      | Error err \<Rightarrow> store (generate_stream e file i q L D) = file
      | Metadata a b c d \<Rightarrow> False
      | Data x f \<Rightarrow> False)"
    using Rejected by (simp add: generate_stream_def Let_def)
  then show ?thesis by blast
next
  case (Streamed cs fin)
  let ?m = "Metadata (title q) L D False"
  let ?st = "foldl (on_data (parse e)) \<lparr>fullResponse = [], jsonBuffer = [], written = [?m]\<rparr> cs"
  show ?thesis
  proof (cases fin)
    case Ended
    obtain ds where ds: "all_data ds" "written (on_end (parse e) ?st) = ?m # ds"
      "fullResponse (on_end (parse e) ?st) = concat_data ds"
      using relayed_stream_end by blast
    have "all_data ds \<and>
     events (generate_stream e file i q L D) = ?m # ds @ [Complete] \<and>
     calls (generate_stream e file i q L D) = [(OLLAMA_MODEL e, buildPrompt q (Some L))] \<and>
     (case Complete of
        Complete \<Rightarrow>
          store (generate_stream e file i q L D) =
            snd (saveResponse e file i (title q) (concat_data ds) (Some L))
      | Error err \<Rightarrow> store (generate_stream e file i q L D) = file
      | Metadata a b c d \<Rightarrow> False
      | Data x f \<Rightarrow> False)"
      using Streamed Ended ds by (simp add: generate_stream_def Let_def)
    then show ?thesis by blast
  next
    case (Errored msg)
    obtain ds where ds: "all_data ds" "written ?st = ?m # ds"
      using relayed_stream by blast
    have "all_data ds \<and>
     events (generate_stream e file i q L D) = ?m # ds @ [Error (StreamError msg)] \<and>
     calls (generate_stream e file i q L D) = [(OLLAMA_MODEL e, buildPrompt q (Some L))] \<and>
     (case Error (StreamError msg) of
        Complete \<Rightarrow>
          store (generate_stream e file i q L D) =
            snd (saveResponse e file i (title q) (concat_data ds) (Some L))
      | Error err \<Rightarrow> store (generate_stream e file i q L D) = file
      | Metadata a b c d \<Rightarrow> False
      | Data x f \<Rightarrow> False)"
      using Streamed Errored ds by (simp add: generate_stream_def Let_def)
    then show ?thesis by blast
  qed
qed

lemma relayed_append: "relayed (xs @ ys) = relayed xs @ relayed ys"
  by (simp add: relayed_def)

lemma concat_data_relayed: "concat_data (relayed ts) = concat ts"
  by (induction ts) (simp_all add: relayed_def)

lemma all_data_relayed: "all_data (relayed ts)"
  by (induction ts) (simp_all add: relayed_def)

text \<open>Whatever the lines, the loop appends plain data events, and their payloads to the
  accumulator.\<close>

lemma relay_lines_relayed:
  "\<exists>ts. fst (relay_lines prs ls full evs) = (full @ concat ts, evs @ relayed ts)"
proof (induction ls arbitrary: full evs)
  case Nil
  have "fst (relay_lines prs [] full evs) = (full @ concat [], evs @ relayed [])"
    by (simp add: relayed_def)
  then show ?case by blast
next
  case (Cons l ls)
  show ?case
  proof (cases "fragment_of prs l")
    case None
    show ?thesis
    proof (cases "trim l \<noteq> [] \<and> prs l = Malformed")
      case True
      then have "fst (relay_lines prs (l # ls) full evs) = (full @ concat [], evs @ relayed [])"
        by (simp add: relayed_def)
      then show ?thesis by blast
    next
      case False
      then have "relay_lines prs (l # ls) full evs = relay_lines prs ls full evs"
        using None by (auto simp: fragment_of_def split: parsed.splits if_splits)
      then show ?thesis using Cons.IH [of full evs] by simp
    qed
  next
    case (Some t)
    then have s: "relay_lines prs (l # ls) full evs =
        relay_lines prs ls (full @ t) (evs @ [Data t False])"
      by (auto simp: fragment_of_def split: parsed.splits if_splits)
    obtain ts where "fst (relay_lines prs ls (full @ t) (evs @ [Data t False])) =
        ((full @ t) @ concat ts, (evs @ [Data t False]) @ relayed ts)"
      using Cons.IH by blast
    then have "fst (relay_lines prs (l # ls) full evs) =
        (full @ concat (t # ts), evs @ relayed (t # ts))"
      using s by (simp add: relayed_def)
    then show ?thesis by blast
  qed
qed

lemma on_data_relayed:
  "\<exists>ts. fullResponse (on_data prs st c) = fullResponse st @ concat ts \<and>
        written (on_data prs st c) = written st @ relayed ts"
proof -
  let ?ls = "butlast (split_nl (jsonBuffer st @ c))"
  obtain ts where "fst (relay_lines prs ?ls (fullResponse st) (written st)) =
       (fullResponse st @ concat ts, written st @ relayed ts)"
    using relay_lines_relayed by blast
  then obtain b where b: "relay_lines prs ?ls (fullResponse st) (written st) =
       ((fullResponse st @ concat ts, written st @ relayed ts), b)"
    by (cases "relay_lines prs ?ls (fullResponse st) (written st)") auto
  have "fullResponse (on_data prs st c) = fullResponse st @ concat ts \<and>
        written (on_data prs st c) = written st @ relayed ts"
    using b by (cases b) (simp_all add: on_data_def Let_def)
  then show ?thesis by blast
qed

lemma foldl_on_data_relayed:
  "\<exists>ts. fullResponse (foldl (on_data prs) st cs) = fullResponse st @ concat ts \<and>
        written (foldl (on_data prs) st cs) = written st @ relayed ts"
proof (induction cs arbitrary: st)
  case Nil
  have "fullResponse (foldl (on_data prs) st []) = fullResponse st @ concat [] \<and>
        written (foldl (on_data prs) st []) = written st @ relayed []"
    by (simp add: relayed_def)
  then show ?case by blast
next
  case (Cons c cs)
  obtain t1 where t1: "fullResponse (on_data prs st c) = fullResponse st @ concat t1"
    "written (on_data prs st c) = written st @ relayed t1"
    using on_data_relayed by blast
  obtain t2 where t2:
    "fullResponse (foldl (on_data prs) (on_data prs st c) cs) =
       fullResponse (on_data prs st c) @ concat t2"
    "written (foldl (on_data prs) (on_data prs st c) cs) = written (on_data prs st c) @ relayed t2"
    using Cons.IH by blast
  have "fullResponse (foldl (on_data prs) st (c # cs)) = fullResponse st @ concat (t1 @ t2) \<and>
        written (foldl (on_data prs) st (c # cs)) = written st @ relayed (t1 @ t2)"
    using t1 t2 by (simp add: relayed_append)
  then show ?case by blast
qed

text \<open>The \<^verbatim>\<open>end\<close> listener relays the fragment of what is left in the buffer.\<close>

lemma on_end_fragment:
  "on_end prs st =
     (case fragment_of prs (jsonBuffer st) of
        None \<Rightarrow> st
      | Some t \<Rightarrow> st\<lparr>fullResponse := fullResponse st @ t, written := written st @ [Data t False]\<rparr>)"
  by (simp add: on_end_def fragment_of_def split: parsed.splits)

lemma on_end_relayed:
  "\<exists>ts. fullResponse (on_end prs st) = fullResponse st @ concat ts \<and>
        written (on_end prs st) = written st @ relayed ts"
proof (cases "fragment_of prs (jsonBuffer st)")
  case None
  then have "fullResponse (on_end prs st) = fullResponse st @ concat [] \<and>
        written (on_end prs st) = written st @ relayed []"
    by (simp add: on_end_fragment relayed_def)
  then show ?thesis by blast
next
  case (Some t)
  then have "fullResponse (on_end prs st) = fullResponse st @ concat [t] \<and>
        written (on_end prs st) = written st @ relayed [t]"
    by (simp add: on_end_fragment relayed_def)
  then show ?thesis by blast
qed

text \<open>Lines and chunks: splitting an output that arrives in two parts.\<close>

lemma split_nl_nonempty: "split_nl s \<noteq> []"
  by (induction s) (auto split: list.splits)

lemma split_nl_no_newline: "CHR 0x0A \<notin> set s \<Longrightarrow> split_nl s = [s]"
  by (induction s) auto

lemma last_split_nl_no_newline: "CHR 0x0A \<notin> set (last (split_nl s))"
  by (induction s) (auto simp: split_nl_nonempty split: list.splits)

lemma split_nl_append:
  "split_nl (a @ b) = butlast (split_nl a) @ split_nl (last (split_nl a) @ b)"
proof (induction a)
  case Nil
  then show ?case by simp
next
  case (Cons c a)
  show ?case
  proof (cases "c = CHR 0x0A")
    case True
    then show ?thesis using Cons split_nl_nonempty by simp
  next
    case False
    obtain l ls where s: "split_nl a = l # ls"
      using split_nl_nonempty by (cases "split_nl a") auto
    show ?thesis
    proof (cases ls)
      case Nil
      then show ?thesis using Cons False s by simp
    next
      case (Cons l' ls')
      obtain m ms where t: "split_nl (a @ b) = m # ms"
        using split_nl_nonempty by (cases "split_nl (a @ b)") auto
      then show ?thesis using Cons.IH False s Cons by simp
    qed
  qed
qed

lemma butlast_split_nl_append:
  "butlast (split_nl (a @ b)) = butlast (split_nl a) @ butlast (split_nl (last (split_nl a) @ b))"
  using split_nl_nonempty by (simp add: split_nl_append [of a b] butlast_append)

lemma last_split_nl_append:
  "last (split_nl (a @ b)) = last (split_nl (last (split_nl a) @ b))"
  using split_nl_nonempty by (simp add: split_nl_append [of a b])

text \<open>On lines that are in order the loop relays exactly their fragments and completes.\<close>

lemma relay_lines_ok:
  "list_all (line_ok prs) ls \<Longrightarrow>
   relay_lines prs ls full evs =
     ((full @ concat (List.map_filter (fragment_of prs) ls),
       evs @ relayed (List.map_filter (fragment_of prs) ls)), True)"
proof (induction ls arbitrary: full evs)
  case Nil
  then show ?case by (simp add: relayed_def List.map_filter_simps)
next
  case (Cons l ls)
  then show ?case
    by (auto simp: line_ok_def fragment_of_def relayed_def List.map_filter_simps
        split: parsed.splits if_splits)
qed

lemma on_data_ok:
  assumes "list_all (line_ok prs) (butlast (split_nl (jsonBuffer st @ c)))"
  shows "on_data prs st c =
     \<lparr>fullResponse = fullResponse st @
        concat (List.map_filter (fragment_of prs) (butlast (split_nl (jsonBuffer st @ c)))),
      jsonBuffer = last (split_nl (jsonBuffer st @ c)),
      written = written st @
        relayed (List.map_filter (fragment_of prs) (butlast (split_nl (jsonBuffer st @ c))))\<rparr>"
  using relay_lines_ok [OF assms] by (simp add: on_data_def Let_def)

lemma map_filter_append:
  "List.map_filter f (xs @ ys) = List.map_filter f xs @ List.map_filter f ys"
  by (simp add: List.map_filter_def)

lemma foldl_on_data_ok:
  assumes "CHR 0x0A \<notin> set (jsonBuffer st)"
    and "list_all (line_ok prs) (butlast (split_nl (jsonBuffer st @ concat cs)))"
  shows "foldl (on_data prs) st cs =
     \<lparr>fullResponse = fullResponse st @
        concat (List.map_filter (fragment_of prs) (butlast (split_nl (jsonBuffer st @ concat cs)))),
      jsonBuffer = last (split_nl (jsonBuffer st @ concat cs)),
      written = written st @
        relayed (List.map_filter (fragment_of prs)
          (butlast (split_nl (jsonBuffer st @ concat cs))))\<rparr>"
  using assms
proof (induction cs arbitrary: st)
  case Nil
  then show ?case by (simp add: split_nl_no_newline relayed_def List.map_filter_simps)
next
  case (Cons c cs)
  let ?b = "jsonBuffer st @ c"
  have sp: "butlast (split_nl (jsonBuffer st @ concat (c # cs))) =
      butlast (split_nl ?b) @ butlast (split_nl (last (split_nl ?b) @ concat cs))"
    using butlast_split_nl_append [of ?b "concat cs"] by simp
  have la: "last (split_nl (jsonBuffer st @ concat (c # cs))) =
      last (split_nl (last (split_nl ?b) @ concat cs))"
    using last_split_nl_append [of ?b "concat cs"] by simp
  have ok1: "list_all (line_ok prs) (butlast (split_nl ?b))"
    and ok2: "list_all (line_ok prs) (butlast (split_nl (last (split_nl ?b) @ concat cs)))"
    using Cons.prems(2) sp by simp_all
  let ?st1 = "on_data prs st c"
  have st1: "?st1 =
     \<lparr>fullResponse = fullResponse st @
        concat (List.map_filter (fragment_of prs) (butlast (split_nl ?b))),
      jsonBuffer = last (split_nl ?b),
      written = written st @ relayed (List.map_filter (fragment_of prs) (butlast (split_nl ?b)))\<rparr>"
    using on_data_ok [OF ok1] .
  have b1: "jsonBuffer ?st1 = last (split_nl ?b)" using st1 by simp
  have n1: "CHR 0x0A \<notin> set (jsonBuffer ?st1)"
    unfolding b1 by (rule last_split_nl_no_newline)
  have ok2': "list_all (line_ok prs) (butlast (split_nl (jsonBuffer ?st1 @ concat cs)))"
    unfolding b1 using ok2 .
  have "foldl (on_data prs) st (c # cs) = foldl (on_data prs) ?st1 cs" by simp
  also have "\<dots> =
     \<lparr>fullResponse = fullResponse ?st1 @
        concat (List.map_filter (fragment_of prs) (butlast (split_nl (jsonBuffer ?st1 @ concat cs)))),
      jsonBuffer = last (split_nl (jsonBuffer ?st1 @ concat cs)),
      written = written ?st1 @
        relayed (List.map_filter (fragment_of prs)
          (butlast (split_nl (jsonBuffer ?st1 @ concat cs))))\<rparr>"
    using Cons.IH [OF n1 ok2'] .
  also have "\<dots> =
     \<lparr>fullResponse = fullResponse st @
        concat (List.map_filter (fragment_of prs)
          (butlast (split_nl (jsonBuffer st @ concat (c # cs))))),
      jsonBuffer = last (split_nl (jsonBuffer st @ concat (c # cs))),
      written = written st @
        relayed (List.map_filter (fragment_of prs)
          (butlast (split_nl (jsonBuffer st @ concat (c # cs)))))\<rparr>"
    unfolding sp la b1 by (simp add: st1 map_filter_append relayed_append)
  finally show ?case .
qed

text \<open>A stream whose complete lines are in order: the listeners relay the fragments of
  the records of the output, each once and in order.\<close>

lemma relayed_in_order:
  assumes "complete_lines_ok prs (concat cs)"
  shows "written (on_end prs (foldl (on_data prs)
           \<lparr>fullResponse = [], jsonBuffer = [], written = [m]\<rparr> cs)) =
         m # relayed (record_fragments prs (concat cs)) \<and>
         fullResponse (on_end prs (foldl (on_data prs)
           \<lparr>fullResponse = [], jsonBuffer = [], written = [m]\<rparr> cs)) =
         concat (record_fragments prs (concat cs))"
proof -
  let ?st0 = "\<lparr>fullResponse = [], jsonBuffer = [], written = [m]\<rparr>"
  let ?L = "split_nl (concat cs)"
  have f: "foldl (on_data prs) ?st0 cs =
     \<lparr>fullResponse = concat (List.map_filter (fragment_of prs) (butlast ?L)),
      jsonBuffer = last ?L,
      written = m # relayed (List.map_filter (fragment_of prs) (butlast ?L))\<rparr>"
    using foldl_on_data_ok [of ?st0 prs cs] assms by (simp add: complete_lines_ok_def)
  have L: "?L = butlast ?L @ [last ?L]" using split_nl_nonempty by simp
  have rf: "record_fragments prs (concat cs) =
      List.map_filter (fragment_of prs) (butlast ?L) @ List.map_filter (fragment_of prs) [last ?L]"
    unfolding record_fragments_def using L map_filter_append by metis
  show ?thesis
    unfolding f rf
    by (cases "fragment_of prs (last ?L)")
      (simp_all add: on_end_fragment List.map_filter_simps relayed_append relayed_def)
qed

section \<open>The handlers after validation\<close>

lemma buildPrompt_fixed_validated:
  "validateLanguage_fixed x = Inr L \<Longrightarrow> \<exists>prompt. buildPrompt_fixed q (Some L) = Inr prompt"
  by (simp add: buildPrompt_fixed_def validate_validated)

lemma fallback_fixed_validated:
  "validateLanguage_fixed x = Inr L \<Longrightarrow> \<exists>fb. generateFallbackResponse_fixed q (Some L) = Inr fb"
  by (simp add: generateFallbackResponse_fixed_def validate_validated)

text \<open>The shape of every run of the generating branch of the strict server, for a
  validated language.\<close>

lemma generate_stream_fixed_shape:
  assumes "validateLanguage_fixed x = Inr L"
  shows "\<exists>ds t prompt. all_data ds \<and> buildPrompt_fixed q (Some L) = Inr prompt \<and>
     events (generate_stream_fixed e file i q L D) = Metadata (title q) L D False # ds @ [t] \<and>
     calls (generate_stream_fixed e file i q L D) = [(''llama3'', prompt)] \<and>
     (case t of
        Complete \<Rightarrow>
          store (generate_stream_fixed e file i q L D) =
            snd (saveResponse_fixed e file i (title q) (concat_data ds) (Some L))
      | Error err \<Rightarrow> store (generate_stream_fixed e file i q L D) = file
      | Metadata a b c d \<Rightarrow> False
      | Data y f \<Rightarrow> False)"
proof -
  obtain prompt where p: "buildPrompt_fixed q (Some L) = Inr prompt"
    using assms buildPrompt_fixed_validated by blast
  obtain fb where fb: "generateFallbackResponse_fixed q (Some L) = Inr fb"
    using assms fallback_fixed_validated by blast
  let ?m = "Metadata (title q) L D False"
  let ?r = "generate_stream_fixed e file i q L D"
  show ?thesis
  proof (cases "infer e ''llama3'' prompt")
    case (Rejected msg)
    have "all_data [Data fb True] \<and> buildPrompt_fixed q (Some L) = Inr prompt \<and>
       events ?r = ?m # [Data fb True] @ [Complete] \<and>
       calls ?r = [(''llama3'', prompt)] \<and>
       (case Complete of
          Complete \<Rightarrow>
            store ?r = snd (saveResponse_fixed e file i (title q) (concat_data [Data fb True]) (Some L))
        | Error err \<Rightarrow> store ?r = file
        | Metadata a b c d \<Rightarrow> False
        | Data y f \<Rightarrow> False)"
      using Rejected p fb by (simp add: generate_stream_fixed_def Let_def)
    then show ?thesis by blast
  next
    case (Streamed cs fin)
    let ?st = "foldl (on_data (parse e)) \<lparr>fullResponse = [], jsonBuffer = [], written = [?m]\<rparr> cs"
    show ?thesis
    proof (cases fin)
      case Ended
      obtain ds where ds: "all_data ds" "written (on_end (parse e) ?st) = ?m # ds"
        "fullResponse (on_end (parse e) ?st) = concat_data ds"
        using relayed_stream_end by blast
      have "all_data ds \<and> buildPrompt_fixed q (Some L) = Inr prompt \<and>
         events ?r = ?m # ds @ [Complete] \<and>
         calls ?r = [(''llama3'', prompt)] \<and>
         (case Complete of
            Complete \<Rightarrow>
              store ?r = snd (saveResponse_fixed e file i (title q) (concat_data ds) (Some L))
          | Error err \<Rightarrow> store ?r = file
          | Metadata a b c d \<Rightarrow> False
          | Data y f \<Rightarrow> False)"
        using Streamed Ended ds p by (simp add: generate_stream_fixed_def Let_def)
      then show ?thesis by blast
    next
      case (Errored msg)
      obtain ds where ds: "all_data ds" "written ?st = ?m # ds"
        using relayed_stream by blast
      have "all_data ds \<and> buildPrompt_fixed q (Some L) = Inr prompt \<and>
         events ?r = ?m # ds @ [Error (StreamError msg)] \<and>
         calls ?r = [(''llama3'', prompt)] \<and>
         (case Error (StreamError msg) of
            Complete \<Rightarrow>
              store ?r = snd (saveResponse_fixed e file i (title q) (concat_data ds) (Some L))
          | Error err \<Rightarrow> store ?r = file
          | Metadata a b c d \<Rightarrow> False
          | Data y f \<Rightarrow> False)"
        using Streamed Errored ds p by (simp add: generate_stream_fixed_def Let_def)
      then show ?thesis by blast
    qed
  qed
qed

text \<open>The two handlers after validation and problem lookup: the cached events, or the
  generating branch.\<close>

lemma explain_stream_valid:
  assumes "questions e \<noteq> []" and "request_index req = Some i"
    and "question_at (questions e) i = Some q"
  shows "explain_stream e file req =
     (let L = validateLanguage (requested_language req); D = getLanguageDisplayName L
      in case loadStoredResponse e file of
           None \<Rightarrow> generate_stream e file i q L D
         | Some sr \<Rightarrow>
             if cache_matches (request_refresh req) (Some sr) i L
             then \<lparr>events = [Metadata (title q) L D True, Data (response sr) False, Complete],
                   store = file, calls = []\<rparr>
             else generate_stream e file i q L D)"
  using assms
  by (simp add: explain_stream_def Let_def requested_language_def cache_matches_def
      split: option.splits)

lemma explain_stream_fixed_valid:
  assumes "questions e \<noteq> []" and "request_index req = Some i"
    and "question_at (questions e) i = Some q"
    and "validateLanguage_fixed (language_param req) = Inr L"
  shows "explain_stream_fixed e file req =
     (let D = getLanguageDisplayName_fixed L
      in case loadStoredResponse e file of
           None \<Rightarrow> generate_stream_fixed e file i q L D
         | Some sr \<Rightarrow>
             if cache_matches (request_refresh req) (Some sr) i L
             then \<lparr>events = [Metadata (title q) L D True, Data (response sr) False, Complete],
                   store = file, calls = []\<rparr>
             else generate_stream_fixed e file i q L D)"
  using assms validated_not_falsy [OF assms(4)]
  by (simp add: explain_stream_fixed_def Let_def cache_matches_def split: option.splits)

lemma generate_stream_not_cached:
  "\<not> served_from_cache (events (generate_stream e file i q L D)) \<and>
   calls (generate_stream e file i q L D) = [(OLLAMA_MODEL e, buildPrompt q (Some L))]"
  using generate_stream_shape [of e "file" i q L D] by auto

lemma generate_stream_fixed_not_cached:
  assumes "validateLanguage_fixed x = Inr L"
  shows "\<not> served_from_cache (events (generate_stream_fixed e file i q L D)) \<and>
   (\<exists>prompt. buildPrompt_fixed q (Some L) = Inr prompt \<and>
      calls (generate_stream_fixed e file i q L D) = [(''llama3'', prompt)])"
  using generate_stream_fixed_shape [OF assms, of q e "file" i D] by auto

text \<open>The generating branch, case by case.\<close>

lemma generate_stream_rejected:
  assumes "infer e (OLLAMA_MODEL e) (buildPrompt q (Some L)) = Rejected msg"
  shows "generate_stream e file i q L D =
     \<lparr>events = [Metadata (title q) L D False,
                Data (generateFallbackResponse q (Some L)) True, Complete],
      store = snd (saveResponse e file i (title q) (generateFallbackResponse q (Some L)) (Some L)),
      calls = [(OLLAMA_MODEL e, buildPrompt q (Some L))]\<rparr>"
  using assms by (simp add: generate_stream_def Let_def)

lemma generate_stream_fixed_rejected:
  assumes "buildPrompt_fixed q (Some L) = Inr prompt"
    and "generateFallbackResponse_fixed q (Some L) = Inr fb"
    and "infer e ''llama3'' prompt = Rejected msg"
  shows "generate_stream_fixed e file i q L D =
     \<lparr>events = [Metadata (title q) L D False, Data fb True, Complete],
      store = snd (saveResponse_fixed e file i (title q) fb (Some L)),
      calls = [(''llama3'', prompt)]\<rparr>"
  using assms by (simp add: generate_stream_fixed_def Let_def)

lemma generate_stream_ended:
  assumes "infer e (OLLAMA_MODEL e) (buildPrompt q (Some L)) = Streamed cs Ended"
  shows "generate_stream e file i q L D =
     (let st = on_end (parse e) (foldl (on_data (parse e))
                 \<lparr>fullResponse = [], jsonBuffer = [], written = [Metadata (title q) L D False]\<rparr> cs)
      in \<lparr>events = written st @ [Complete],
          store = snd (saveResponse e file i (title q) (fullResponse st) (Some L)),
          calls = [(OLLAMA_MODEL e, buildPrompt q (Some L))]\<rparr>)"
  using assms by (simp add: generate_stream_def Let_def)

lemma generate_stream_errored:
  assumes "infer e (OLLAMA_MODEL e) (buildPrompt q (Some L)) = Streamed cs (Errored msg)"
  shows "generate_stream e file i q L D =
     \<lparr>events = written (foldl (on_data (parse e))
                 \<lparr>fullResponse = [], jsonBuffer = [], written = [Metadata (title q) L D False]\<rparr> cs) @
               [Error (StreamError msg)],
      store = file,
      calls = [(OLLAMA_MODEL e, buildPrompt q (Some L))]\<rparr>"
  using assms by (simp add: generate_stream_def Let_def)

lemma generate_stream_fixed_ended:
  assumes "buildPrompt_fixed q (Some L) = Inr prompt"
    and "infer e ''llama3'' prompt = Streamed cs Ended"
  shows "generate_stream_fixed e file i q L D =
     (let st = on_end (parse e) (foldl (on_data (parse e))
                 \<lparr>fullResponse = [], jsonBuffer = [], written = [Metadata (title q) L D False]\<rparr> cs)
      in \<lparr>events = written st @ [Complete],
          store = snd (saveResponse_fixed e file i (title q) (fullResponse st) (Some L)),
          calls = [(''llama3'', prompt)]\<rparr>)"
  using assms by (simp add: generate_stream_fixed_def Let_def)

lemma generate_stream_fixed_errored:
  assumes "buildPrompt_fixed q (Some L) = Inr prompt"
    and "infer e ''llama3'' prompt = Streamed cs (Errored msg)"
  shows "generate_stream_fixed e file i q L D =
     \<lparr>events = written (foldl (on_data (parse e))
                 \<lparr>fullResponse = [], jsonBuffer = [], written = [Metadata (title q) L D False]\<rparr> cs) @
               [Error (StreamError msg)],
      store = file,
      calls = [(''llama3'', prompt)]\<rparr>"
  using assms by (simp add: generate_stream_fixed_def Let_def)

lemma explain_stream_generates:
  assumes "questions e \<noteq> []" and "request_index req = Some i"
    and "question_at (questions e) i = Some q"
    and "\<not> cache_matches (request_refresh req) (loadStoredResponse e file) i
           (validateLanguage (requested_language req))"
  shows "explain_stream e file req =
     generate_stream e file i q (validateLanguage (requested_language req))
       (getLanguageDisplayName (validateLanguage (requested_language req)))"
  using explain_stream_valid [OF assms(1,2,3), of "file"] assms(4)
  by (simp add: Let_def split: option.splits)

lemma explain_stream_fixed_generates:
  assumes "questions e \<noteq> []" and "request_index req = Some i"
    and "question_at (questions e) i = Some q"
    and "validateLanguage_fixed (language_param req) = Inr L"
    and "\<not> cache_matches (request_refresh req) (loadStoredResponse e file) i L"
  shows "explain_stream_fixed e file req =
     generate_stream_fixed e file i q L (getLanguageDisplayName_fixed L)"
  using explain_stream_fixed_valid [OF assms(1,2,3,4), of "file"] assms(5)
  by (simp add: Let_def split: option.splits)

text \<open>The text of a completed stream, for any listener state that started from the
  metadata event.\<close>

lemma completed_stream_text:
  "concat_data (written (on_end prs (foldl (on_data prs)
       \<lparr>fullResponse = [], jsonBuffer = [], written = [Metadata a b c d]\<rparr> cs)) @ [Complete]) =
   fullResponse (on_end prs (foldl (on_data prs)
       \<lparr>fullResponse = [], jsonBuffer = [], written = [Metadata a b c d]\<rparr> cs))"
proof -
  obtain ds where "all_data ds"
    "written (on_end prs (foldl (on_data prs)
        \<lparr>fullResponse = [], jsonBuffer = [], written = [Metadata a b c d]\<rparr> cs)) = Metadata a b c d # ds"
    "fullResponse (on_end prs (foldl (on_data prs)
        \<lparr>fullResponse = [], jsonBuffer = [], written = [Metadata a b c d]\<rparr> cs)) = concat_data ds"
    using relayed_stream_end by blast
  then show ?thesis by (simp add: concat_data_append)
qed

lemma errored_stream_relayed:
  "\<exists>ts. written (foldl (on_data prs)
       \<lparr>fullResponse = [], jsonBuffer = [], written = [m]\<rparr> cs) = m # relayed ts"
proof -
  obtain ts where "written (foldl (on_data prs)
       \<lparr>fullResponse = [], jsonBuffer = [], written = [m]\<rparr> cs) =
     written \<lparr>fullResponse = [], jsonBuffer = [], written = [m]\<rparr> @ relayed ts"
    using foldl_on_data_relayed by blast
  then show ?thesis by auto
qed

lemma ended_stream_relayed:
  "\<exists>ts. written (on_end prs (foldl (on_data prs)
       \<lparr>fullResponse = [], jsonBuffer = [], written = [m]\<rparr> cs)) = m # relayed ts"
proof -
  let ?st0 = "\<lparr>fullResponse = [], jsonBuffer = [], written = [m]\<rparr>"
  obtain t1 where t1: "written (foldl (on_data prs) ?st0 cs) = written ?st0 @ relayed t1"
    using foldl_on_data_relayed by blast
  obtain t2 where t2: "written (on_end prs (foldl (on_data prs) ?st0 cs)) =
      written (foldl (on_data prs) ?st0 cs) @ relayed t2"
    using on_end_relayed by blast
  have "written (on_end prs (foldl (on_data prs) ?st0 cs)) = m # relayed (t1 @ t2)"
    using t1 t2 by (simp add: relayed_append)
  then show ?thesis by blast
qed

section \<open>The cache is hit exactly on a matching stored response\<close>

text \<open>C1: for a request of the streaming endpoint that passes validation and problem
  lookup, the stream is served from the cache exactly when no refresh is forced, a stored
  response exists and its question index and language are those of the request (the
  language after validation). On a hit the events are the metadata event with
  \<open>fromCache\<close> true, one data event with the stored text, and the complete event, and
  nothing is posted to the inference endpoint. When the stored language differs from the
  requested one (same index), the stream is not served from the cache and the prompt is
  posted to the inference endpoint.\<close>

theorem cache_hit_exactly_on_match:
  assumes "questions e \<noteq> []" and "request_index req = Some i"
    and "question_at (questions e) i = Some q"
  shows
    "(let L = validateLanguage (requested_language req);
          r = explain_stream e file req
      in served_from_cache (events r) =
           cache_matches (request_refresh req) (loadStoredResponse e file) i L \<and>
         (\<forall>sr. loadStoredResponse e file = Some sr \<and>
               cache_matches (request_refresh req) (Some sr) i L \<longrightarrow>
               events r = [Metadata (title q) L (getLanguageDisplayName L) True,
                           Data (response sr) False, Complete] \<and>
               calls r = [] \<and> store r = file) \<and>
         (\<not> cache_matches (request_refresh req) (loadStoredResponse e file) i L \<longrightarrow>
            calls r = [(OLLAMA_MODEL e, buildPrompt q (Some L))]) \<and>
         (\<forall>sr. loadStoredResponse e file = Some sr \<and> questionIndex sr = i \<and>
               language sr \<noteq> L \<longrightarrow>
               \<not> served_from_cache (events r) \<and>
               calls r = [(OLLAMA_MODEL e, buildPrompt q (Some L))])) \<and>
     (\<forall>L. validateLanguage_fixed (language_param req) = Inr L \<longrightarrow>
        (let r = explain_stream_fixed e file req
         in served_from_cache (events r) =
              cache_matches (request_refresh req) (loadStoredResponse e file) i L \<and>
            (\<forall>sr. loadStoredResponse e file = Some sr \<and>
                  cache_matches (request_refresh req) (Some sr) i L \<longrightarrow>
                  events r = [Metadata (title q) L (getLanguageDisplayName_fixed L) True,
                              Data (response sr) False, Complete] \<and>
                  calls r = [] \<and> store r = file) \<and>
            (\<not> cache_matches (request_refresh req) (loadStoredResponse e file) i L \<longrightarrow>
               (\<exists>prompt. buildPrompt_fixed q (Some L) = Inr prompt \<and>
                  calls r = [(''llama3'', prompt)])) \<and>
            (\<forall>sr. loadStoredResponse e file = Some sr \<and> questionIndex sr = i \<and>
                  language sr \<noteq> L \<longrightarrow>
                  \<not> served_from_cache (events r) \<and>
                  (\<exists>prompt. buildPrompt_fixed q (Some L) = Inr prompt \<and>
                     calls r = [(''llama3'', prompt)]))))"
proof -
  have lenient: ?thesis if False
    using that by simp
  let ?L = "validateLanguage (requested_language req)"
  let ?D = "getLanguageDisplayName ?L"
  let ?r = "explain_stream e file req"
  have r: "?r = (case loadStoredResponse e file of
           None \<Rightarrow> generate_stream e file i q ?L ?D
         | Some sr \<Rightarrow>
             if cache_matches (request_refresh req) (Some sr) i ?L
             then \<lparr>events = [Metadata (title q) ?L ?D True, Data (response sr) False, Complete],
                   store = file, calls = []\<rparr>
             else generate_stream e file i q ?L ?D)"
    using explain_stream_valid [OF assms] by (simp add: Let_def)
  have g: "\<not> served_from_cache (events (generate_stream e file i q ?L ?D))"
    "calls (generate_stream e file i q ?L ?D) = [(OLLAMA_MODEL e, buildPrompt q (Some ?L))]"
    using generate_stream_not_cached by auto
  have part1: "served_from_cache (events ?r) =
           cache_matches (request_refresh req) (loadStoredResponse e file) i ?L \<and>
         (\<forall>sr. loadStoredResponse e file = Some sr \<and>
               cache_matches (request_refresh req) (Some sr) i ?L \<longrightarrow>
               events ?r = [Metadata (title q) ?L ?D True, Data (response sr) False, Complete] \<and>
               calls ?r = [] \<and> store ?r = file) \<and>
         (\<not> cache_matches (request_refresh req) (loadStoredResponse e file) i ?L \<longrightarrow>
            calls ?r = [(OLLAMA_MODEL e, buildPrompt q (Some ?L))]) \<and>
         (\<forall>sr. loadStoredResponse e file = Some sr \<and> questionIndex sr = i \<and>
               language sr \<noteq> ?L \<longrightarrow>
               \<not> served_from_cache (events ?r) \<and>
               calls ?r = [(OLLAMA_MODEL e, buildPrompt q (Some ?L))])"
  proof (cases "loadStoredResponse e file")
    case None
    then show ?thesis using r g by (simp add: cache_matches_def)
  next
    case (Some sr)
    show ?thesis
    proof (cases "cache_matches (request_refresh req) (Some sr) i ?L")
      case True
      then show ?thesis using r Some by (auto simp: cache_matches_def)
    next
      case False
      then show ?thesis using r g Some by (auto simp: cache_matches_def)
    qed
  qed
  have part2: "served_from_cache (events (explain_stream_fixed e file req)) =
              cache_matches (request_refresh req) (loadStoredResponse e file) i L \<and>
            (\<forall>sr. loadStoredResponse e file = Some sr \<and>
                  cache_matches (request_refresh req) (Some sr) i L \<longrightarrow>
                  events (explain_stream_fixed e file req) =
                    [Metadata (title q) L (getLanguageDisplayName_fixed L) True,
                     Data (response sr) False, Complete] \<and>
                  calls (explain_stream_fixed e file req) = [] \<and>
                  store (explain_stream_fixed e file req) = file) \<and>
            (\<not> cache_matches (request_refresh req) (loadStoredResponse e file) i L \<longrightarrow>
               (\<exists>prompt. buildPrompt_fixed q (Some L) = Inr prompt \<and>
                  calls (explain_stream_fixed e file req) = [(''llama3'', prompt)])) \<and>
            (\<forall>sr. loadStoredResponse e file = Some sr \<and> questionIndex sr = i \<and>
                  language sr \<noteq> L \<longrightarrow>
                  \<not> served_from_cache (events (explain_stream_fixed e file req)) \<and>
                  (\<exists>prompt. buildPrompt_fixed q (Some L) = Inr prompt \<and>
                     calls (explain_stream_fixed e file req) = [(''llama3'', prompt)]))"
    if v: "validateLanguage_fixed (language_param req) = Inr L" for L
  proof -
    let ?D = "getLanguageDisplayName_fixed L"
    let ?r = "explain_stream_fixed e file req"
    have r: "?r = (case loadStoredResponse e file of
           None \<Rightarrow> generate_stream_fixed e file i q L ?D
         | Some sr \<Rightarrow>
             if cache_matches (request_refresh req) (Some sr) i L
             then \<lparr>events = [Metadata (title q) L ?D True, Data (response sr) False, Complete],
                   store = file, calls = []\<rparr>
             else generate_stream_fixed e file i q L ?D)"
      using explain_stream_fixed_valid [OF assms v] by (simp add: Let_def)
    have g: "\<not> served_from_cache (events (generate_stream_fixed e file i q L ?D))"
      "\<exists>prompt. buildPrompt_fixed q (Some L) = Inr prompt \<and>
         calls (generate_stream_fixed e file i q L ?D) = [(''llama3'', prompt)]"
      using generate_stream_fixed_not_cached [OF v] by auto
    show ?thesis
    proof (cases "loadStoredResponse e file")
      case None
      then show ?thesis using r g by (simp add: cache_matches_def)
    next
      case (Some sr)
      show ?thesis
      proof (cases "cache_matches (request_refresh req) (Some sr) i L")
        case True
        then show ?thesis using r Some by (auto simp: cache_matches_def)
      next
        case False
        then show ?thesis using r g Some by (auto simp: cache_matches_def)
      qed
    qed
  qed
  show ?thesis
    unfolding Let_def using part1 part2 by blast
qed

lemma example_facts:
  "questions env_example \<noteq> []"
  "request_index request_example = Some 0"
  "question_at (questions env_example) 0 = Some problem_example"
  "validateLanguage (requested_language request_example) = ''python''"
  "validateLanguage_fixed (language_param request_example) = Inr ''python''"
proof -
  show "questions env_example \<noteq> []" by (simp add: env_example_def)
  show "request_index request_example = Some 0"
    by (simp add: request_index_def request_example_def parseInt_def parse_unsigned_def
        parse_digits_def digit_value_def is_space_def)
  show "question_at (questions env_example) 0 = Some problem_example"
    by (simp add: question_at_def env_example_def)
  have l: "toLowerCase ''Python'' = ''python''" by code_simp
  show "validateLanguage (requested_language request_example) = ''python''"
    by (simp add: requested_language_def request_example_def falsy_def validateLanguage_def
        l SUPPORTED_LANGUAGES_def)
  show "validateLanguage_fixed (language_param request_example) = Inr ''python''"
    by (simp add: request_example_def validateLanguage_fixed_def l SUPPORTED_LANGUAGES_def)
qed

lemma python_facts:
  "validateLanguage (Some ''python'') = ''python''"
  "validateLanguage_fixed (Some ''python'') = Inr ''python''"
  "getLanguageDisplayName ''python'' = ''Python''"
  "getLanguageDisplayName_fixed ''python'' = ''Python''"
proof -
  have l: "toLowerCase ''python'' = ''python''" by code_simp
  show "validateLanguage (Some ''python'') = ''python''"
    by (simp add: validateLanguage_def l SUPPORTED_LANGUAGES_def)
  show "validateLanguage_fixed (Some ''python'') = Inr ''python''"
    by (simp add: validateLanguage_fixed_def l SUPPORTED_LANGUAGES_def)
  show "getLanguageDisplayName ''python'' = ''Python''"
    by (simp add: getLanguageDisplayName_def)
  show "getLanguageDisplayName_fixed ''python'' = ''Python''"
    by (simp add: getLanguageDisplayName_fixed_def)
qed

theorem cache_hit_witness:
  "events (explain_stream env_example (Some stored_example) request_example) =
     [Metadata ''Two Sum'' ''python'' ''Python'' True, Data ''Think of a map.'' False, Complete] \<and>
   calls (explain_stream env_example (Some stored_example) request_example) = [] \<and>
   events (explain_stream_fixed env_example (Some stored_example) request_example) =
     [Metadata ''Two Sum'' ''python'' ''Python'' True, Data ''Think of a map.'' False, Complete] \<and>
   calls (explain_stream_fixed env_example (Some stored_example) request_example) = []"
proof -
  have m: "cache_matches (request_refresh request_example) (Some stored_example) 0 ''python''"
    by (simp add: cache_matches_def request_refresh_def request_example_def stored_example_def)
  have l: "loadStoredResponse env_example (Some stored_example) = Some stored_example"
    by (simp add: loadStoredResponse_def env_example_def)
  have t: "title problem_example = ''Two Sum''" "response stored_example = ''Think of a map.''"
    by (simp_all add: problem_example_def stored_example_def)
  have d: "getLanguageDisplayName ''python'' = ''Python''"
    "getLanguageDisplayName_fixed ''python'' = ''Python''"
    by (simp_all add: getLanguageDisplayName_def getLanguageDisplayName_fixed_def)
  show ?thesis
    using cache_hit_exactly_on_match [OF example_facts(1,2,3), of "Some stored_example"]
    by (simp add: Let_def example_facts(4,5) m l t d)
qed

section \<open>The order of the events of a stream\<close>

lemma sse_ok_shape:
  assumes "all_data ds"
    and "case t of Complete \<Rightarrow> P | Error err \<Rightarrow> Q | Metadata a b c d \<Rightarrow> False | Data y f \<Rightarrow> False"
  shows "sse_ok (Metadata a' b' c' d' # ds @ [t])"
proof (cases t)
  case Complete
  then show ?thesis using assms(1) body_ok_data_terminal by simp
next
  case (Error err)
  then show ?thesis using assms(1) body_ok_data_terminal by simp
next
  case (Metadata a b c d)
  then show ?thesis using assms(2) by simp
next
  case (Data y f)
  then show ?thesis using assms(2) by simp
qed

lemma sse_ok_generate_stream: "sse_ok (events (generate_stream e file i q L D))"
proof -
  obtain ds t where "all_data ds"
    "events (generate_stream e file i q L D) = Metadata (title q) L D False # ds @ [t]"
    "case t of
        Complete \<Rightarrow>
          store (generate_stream e file i q L D) =
            snd (saveResponse e file i (title q) (concat_data ds) (Some L))
      | Error err \<Rightarrow> store (generate_stream e file i q L D) = file
      | Metadata a b c d \<Rightarrow> False
      | Data x f \<Rightarrow> False"
    using generate_stream_shape [of e "file" i q L D] by blast
  then show ?thesis using sse_ok_shape by simp
qed

lemma sse_ok_generate_stream_fixed:
  assumes "validateLanguage_fixed x = Inr L"
  shows "sse_ok (events (generate_stream_fixed e file i q L D))"
proof -
  obtain ds t where "all_data ds"
    "events (generate_stream_fixed e file i q L D) = Metadata (title q) L D False # ds @ [t]"
    "case t of
        Complete \<Rightarrow>
          store (generate_stream_fixed e file i q L D) =
            snd (saveResponse_fixed e file i (title q) (concat_data ds) (Some L))
      | Error err \<Rightarrow> store (generate_stream_fixed e file i q L D) = file
      | Metadata a b c d \<Rightarrow> False
      | Data y f \<Rightarrow> False"
    using generate_stream_fixed_shape [OF assms, of q e "file" i D] by blast
  then show ?thesis using sse_ok_shape by simp
qed

lemma sse_ok_explain_stream: "sse_ok (events (explain_stream e file req))"
  using sse_ok_generate_stream
  by (simp add: explain_stream_def Let_def split: option.splits)

lemma sse_ok_explain_stream_fixed: "sse_ok (events (explain_stream_fixed e file req))"
proof (cases "validateLanguage_fixed (language_param req)")
  case (Inl err)
  then show ?thesis by (simp add: explain_stream_fixed_def Let_def)
next
  case (Inr L)
  then show ?thesis
    using sse_ok_generate_stream_fixed [OF Inr]
    by (simp add: explain_stream_fixed_def Let_def split: option.splits)
qed

text \<open>What was persisted after a generated stream that completed is the sanitized
  concatenation of its data events.\<close>

lemma generate_stream_text:
  assumes "last (events (generate_stream e file i q L D)) = Complete"
  shows "store (generate_stream e file i q L D) =
           snd (saveResponse e file i (title q)
                 (concat_data (events (generate_stream e file i q L D))) (Some L))"
proof -
  obtain ds t where s: "all_data ds"
    "events (generate_stream e file i q L D) = Metadata (title q) L D False # ds @ [t]"
    "case t of
        Complete \<Rightarrow>
          store (generate_stream e file i q L D) =
            snd (saveResponse e file i (title q) (concat_data ds) (Some L))
      | Error err \<Rightarrow> store (generate_stream e file i q L D) = file
      | Metadata a b c d \<Rightarrow> False
      | Data x f \<Rightarrow> False"
    using generate_stream_shape [of e "file" i q L D] by blast
  have t: "t = Complete" using assms s(2) by simp
  then show ?thesis using s by (simp add: concat_data_append)
qed

lemma generate_stream_fixed_text:
  assumes "validateLanguage_fixed x = Inr L"
    and "last (events (generate_stream_fixed e file i q L D)) = Complete"
  shows "store (generate_stream_fixed e file i q L D) =
           snd (saveResponse_fixed e file i (title q)
                 (concat_data (events (generate_stream_fixed e file i q L D))) (Some L))"
proof -
  obtain ds t where s: "all_data ds"
    "events (generate_stream_fixed e file i q L D) = Metadata (title q) L D False # ds @ [t]"
    "case t of
        Complete \<Rightarrow>
          store (generate_stream_fixed e file i q L D) =
            snd (saveResponse_fixed e file i (title q) (concat_data ds) (Some L))
      | Error err \<Rightarrow> store (generate_stream_fixed e file i q L D) = file
      | Metadata a b c d \<Rightarrow> False
      | Data y f \<Rightarrow> False"
    using generate_stream_fixed_shape [OF assms(1), of q e "file" i D] by blast
  have t: "t = Complete" using assms(2) s(2) by simp
  then show ?thesis using s by (simp add: concat_data_append)
qed

text \<open>C8: the events of every streamed request are at most one metadata event, in
  front, then data events, then exactly one terminal event (complete or error) and nothing
  after it. The data events carry the response text in order. On a cache hit their
  concatenation is the stored text. After a generated stream that ended, the events are
  what the \<^verbatim>\<open>data\<close> and \<^verbatim>\<open>end\<close> listeners wrote, closed by the complete event, the
  concatenation of the data events is the response text the listeners accumulated, and this
  text is what is handed to the store; when every line of the output that a newline ends is
  blank or can be decoded, the data events are exactly the fragments of the records of the
  output, each once and in order, however the output was cut into chunks and whether or not
  its last line is ended by a newline. When the request to the inference endpoint is
  rejected, the one data event carries the fallback text.\<close>

theorem stream_events_well_formed:
  "sse_ok (events (explain_stream e file req)) \<and>
   sse_ok (events (explain_stream_fixed e file req)) \<and>
   (\<forall>i q. questions e \<noteq> [] \<and> request_index req = Some i \<and>
          question_at (questions e) i = Some q \<longrightarrow>
      (let L = validateLanguage (requested_language req); D = getLanguageDisplayName L;
           r = explain_stream e file req
       in (\<forall>sr. loadStoredResponse e file = Some sr \<and> served_from_cache (events r) \<longrightarrow>
                concat_data (events r) = response sr) \<and>
          (\<not> served_from_cache (events r) \<and> last (events r) = Complete \<longrightarrow>
             store r =
               snd (saveResponse e file i (title q) (concat_data (events r)) (Some L))) \<and>
          (\<forall>cs. \<not> cache_matches (request_refresh req) (loadStoredResponse e file) i L \<and>
                infer e (OLLAMA_MODEL e) (buildPrompt q (Some L)) = Streamed cs Ended \<longrightarrow>
             (let st = on_end (parse e) (foldl (on_data (parse e))
                         \<lparr>fullResponse = [], jsonBuffer = [],
                          written = [Metadata (title q) L D False]\<rparr> cs)
              in events r = written st @ [Complete] \<and>
                 concat_data (events r) = fullResponse st) \<and>
             (complete_lines_ok (parse e) (concat cs) \<longrightarrow>
                events r =
                  Metadata (title q) L D False # relayed (record_fragments (parse e) (concat cs)) @
                  [Complete] \<and>
                concat_data (events r) = concat (record_fragments (parse e) (concat cs)))) \<and>
          (\<forall>msg. \<not> cache_matches (request_refresh req) (loadStoredResponse e file) i L \<and>
                 infer e (OLLAMA_MODEL e) (buildPrompt q (Some L)) = Rejected msg \<longrightarrow>
             concat_data (events r) = generateFallbackResponse q (Some L)))) \<and>
   (\<forall>i q L. questions e \<noteq> [] \<and> request_index req = Some i \<and>
          question_at (questions e) i = Some q \<and>
          validateLanguage_fixed (language_param req) = Inr L \<longrightarrow>
      (let D = getLanguageDisplayName_fixed L; r = explain_stream_fixed e file req
       in (\<forall>sr. loadStoredResponse e file = Some sr \<and> served_from_cache (events r) \<longrightarrow>
                concat_data (events r) = response sr) \<and>
          (\<not> served_from_cache (events r) \<and> last (events r) = Complete \<longrightarrow>
             store r =
               snd (saveResponse_fixed e file i (title q) (concat_data (events r))
                     (Some L))) \<and>
          (\<forall>cs prompt.
             \<not> cache_matches (request_refresh req) (loadStoredResponse e file) i L \<and>
             buildPrompt_fixed q (Some L) = Inr prompt \<and>
             infer e ''llama3'' prompt = Streamed cs Ended \<longrightarrow>
             (let st = on_end (parse e) (foldl (on_data (parse e))
                         \<lparr>fullResponse = [], jsonBuffer = [],
                          written = [Metadata (title q) L D False]\<rparr> cs)
              in events r = written st @ [Complete] \<and>
                 concat_data (events r) = fullResponse st) \<and>
             (complete_lines_ok (parse e) (concat cs) \<longrightarrow>
                events r =
                  Metadata (title q) L D False # relayed (record_fragments (parse e) (concat cs)) @
                  [Complete] \<and>
                concat_data (events r) = concat (record_fragments (parse e) (concat cs)))) \<and>
          (\<forall>msg prompt fb.
             \<not> cache_matches (request_refresh req) (loadStoredResponse e file) i L \<and>
             buildPrompt_fixed q (Some L) = Inr prompt \<and>
             generateFallbackResponse_fixed q (Some L) = Inr fb \<and>
             infer e ''llama3'' prompt = Rejected msg \<longrightarrow>
             concat_data (events r) = fb)))"
proof -
  have lenient:
    "(\<forall>sr. loadStoredResponse e file = Some sr \<and>
           served_from_cache (events (explain_stream e file req)) \<longrightarrow>
           concat_data (events (explain_stream e file req)) = response sr) \<and>
     (\<not> served_from_cache (events (explain_stream e file req)) \<and>
      last (events (explain_stream e file req)) = Complete \<longrightarrow>
        store (explain_stream e file req) =
          snd (saveResponse e file i (title q) (concat_data (events (explain_stream e file req)))
                (Some (validateLanguage (requested_language req)))))"
    if v: "questions e \<noteq> []" "request_index req = Some i"
      "question_at (questions e) i = Some q" for i q
  proof -
    let ?L = "validateLanguage (requested_language req)"
    let ?D = "getLanguageDisplayName ?L"
    have g: "\<not> served_from_cache (events (generate_stream e file i q ?L ?D))"
      using generate_stream_not_cached by blast
    show ?thesis
      using explain_stream_valid [OF v, of "file"] g
        generate_stream_text [of e "file" i q ?L ?D]
      by (auto simp: Let_def split: option.splits if_splits)
  qed
  have lenient_ended:
    "(let st = on_end (parse e) (foldl (on_data (parse e))
                         \<lparr>fullResponse = [], jsonBuffer = [],
                          written = [Metadata (title q) (validateLanguage (requested_language req))
                            (getLanguageDisplayName (validateLanguage (requested_language req)))
                            False]\<rparr> cs)
      in events (explain_stream e file req) = written st @ [Complete] \<and>
         concat_data (events (explain_stream e file req)) = fullResponse st) \<and>
     (complete_lines_ok (parse e) (concat cs) \<longrightarrow>
        events (explain_stream e file req) =
          Metadata (title q) (validateLanguage (requested_language req))
            (getLanguageDisplayName (validateLanguage (requested_language req))) False #
          relayed (record_fragments (parse e) (concat cs)) @ [Complete] \<and>
        concat_data (events (explain_stream e file req)) =
          concat (record_fragments (parse e) (concat cs)))"
    if v: "questions e \<noteq> []" "request_index req = Some i"
      "question_at (questions e) i = Some q"
      and n: "\<not> cache_matches (request_refresh req) (loadStoredResponse e file) i
           (validateLanguage (requested_language req))"
      and s: "infer e (OLLAMA_MODEL e)
           (buildPrompt q (Some (validateLanguage (requested_language req)))) = Streamed cs Ended"
    for i q cs
  proof -
    let ?L = "validateLanguage (requested_language req)"
    let ?D = "getLanguageDisplayName ?L"
    let ?m = "Metadata (title q) ?L ?D False"
    let ?st = "on_end (parse e) (foldl (on_data (parse e))
        \<lparr>fullResponse = [], jsonBuffer = [], written = [?m]\<rparr> cs)"
    have ev: "events (explain_stream e file req) = written ?st @ [Complete]"
      using explain_stream_generates [OF v n] generate_stream_ended [OF s, of "file" i ?D]
      by (simp add: Let_def)
    have tx: "concat_data (written ?st @ [Complete]) = fullResponse ?st"
      by (rule completed_stream_text)
    have ord: "written ?st = ?m # relayed (record_fragments (parse e) (concat cs)) \<and>
        fullResponse ?st = concat (record_fragments (parse e) (concat cs))"
      if "complete_lines_ok (parse e) (concat cs)"
      using relayed_in_order [OF that] .
    show ?thesis
      unfolding Let_def ev using tx ord by (simp add: concat_data_append concat_data_relayed)
  qed
  have lenient_rejected:
    "concat_data (events (explain_stream e file req)) =
       generateFallbackResponse q (Some (validateLanguage (requested_language req)))"
    if v: "questions e \<noteq> []" "request_index req = Some i"
      "question_at (questions e) i = Some q"
      and n: "\<not> cache_matches (request_refresh req) (loadStoredResponse e file) i
           (validateLanguage (requested_language req))"
      and s: "infer e (OLLAMA_MODEL e)
           (buildPrompt q (Some (validateLanguage (requested_language req)))) = Rejected msg"
    for i q msg
    using explain_stream_generates [OF v n]
      generate_stream_rejected [OF s, of "file" i
        "getLanguageDisplayName (validateLanguage (requested_language req))"]
    by simp
  have strict:
    "(\<forall>sr. loadStoredResponse e file = Some sr \<and>
           served_from_cache (events (explain_stream_fixed e file req)) \<longrightarrow>
           concat_data (events (explain_stream_fixed e file req)) = response sr) \<and>
     (\<not> served_from_cache (events (explain_stream_fixed e file req)) \<and>
      last (events (explain_stream_fixed e file req)) = Complete \<longrightarrow>
        store (explain_stream_fixed e file req) =
          snd (saveResponse_fixed e file i (title q)
                (concat_data (events (explain_stream_fixed e file req))) (Some L)))"
    if v: "questions e \<noteq> []" "request_index req = Some i"
      "question_at (questions e) i = Some q"
      "validateLanguage_fixed (language_param req) = Inr L" for i q L
  proof -
    let ?D = "getLanguageDisplayName_fixed L"
    have g: "\<not> served_from_cache (events (generate_stream_fixed e file i q L ?D))"
      using generate_stream_fixed_not_cached [OF v(4)] by blast
    show ?thesis
      using explain_stream_fixed_valid [OF v, of "file"] g
        generate_stream_fixed_text [OF v(4), of e "file" i q ?D]
      by (auto simp: Let_def split: option.splits if_splits)
  qed
  have strict_ended:
    "(let st = on_end (parse e) (foldl (on_data (parse e))
                         \<lparr>fullResponse = [], jsonBuffer = [],
                          written = [Metadata (title q) L (getLanguageDisplayName_fixed L)
                            False]\<rparr> cs)
      in events (explain_stream_fixed e file req) = written st @ [Complete] \<and>
         concat_data (events (explain_stream_fixed e file req)) = fullResponse st) \<and>
     (complete_lines_ok (parse e) (concat cs) \<longrightarrow>
        events (explain_stream_fixed e file req) =
          Metadata (title q) L (getLanguageDisplayName_fixed L) False #
          relayed (record_fragments (parse e) (concat cs)) @ [Complete] \<and>
        concat_data (events (explain_stream_fixed e file req)) =
          concat (record_fragments (parse e) (concat cs)))"
    if v: "questions e \<noteq> []" "request_index req = Some i"
      "question_at (questions e) i = Some q"
      "validateLanguage_fixed (language_param req) = Inr L"
      and n: "\<not> cache_matches (request_refresh req) (loadStoredResponse e file) i L"
      and p: "buildPrompt_fixed q (Some L) = Inr prompt"
      and s: "infer e ''llama3'' prompt = Streamed cs Ended"
    for i q L cs prompt
  proof -
    let ?D = "getLanguageDisplayName_fixed L"
    let ?m = "Metadata (title q) L ?D False"
    let ?st = "on_end (parse e) (foldl (on_data (parse e))
        \<lparr>fullResponse = [], jsonBuffer = [], written = [?m]\<rparr> cs)"
    have ev: "events (explain_stream_fixed e file req) = written ?st @ [Complete]"
      using explain_stream_fixed_generates [OF v n]
        generate_stream_fixed_ended [OF p s, of "file" i ?D]
      by (simp add: Let_def)
    have tx: "concat_data (written ?st @ [Complete]) = fullResponse ?st"
      by (rule completed_stream_text)
    have ord: "written ?st = ?m # relayed (record_fragments (parse e) (concat cs)) \<and>
        fullResponse ?st = concat (record_fragments (parse e) (concat cs))"
      if "complete_lines_ok (parse e) (concat cs)"
      using relayed_in_order [OF that] .
    show ?thesis
      unfolding Let_def ev using tx ord by (simp add: concat_data_append concat_data_relayed)
  qed
  have strict_rejected:
    "concat_data (events (explain_stream_fixed e file req)) = fb"
    if v: "questions e \<noteq> []" "request_index req = Some i"
      "question_at (questions e) i = Some q"
      "validateLanguage_fixed (language_param req) = Inr L"
      and n: "\<not> cache_matches (request_refresh req) (loadStoredResponse e file) i L"
      and p: "buildPrompt_fixed q (Some L) = Inr prompt"
      and f: "generateFallbackResponse_fixed q (Some L) = Inr fb"
      and s: "infer e ''llama3'' prompt = Rejected msg"
    for i q L msg prompt fb
    using explain_stream_fixed_generates [OF v n]
      generate_stream_fixed_rejected [OF p f s, of "file" i "getLanguageDisplayName_fixed L"]
    by simp
  have A: "\<forall>i q. questions e \<noteq> [] \<and> request_index req = Some i \<and>
          question_at (questions e) i = Some q \<longrightarrow>
      (let L = validateLanguage (requested_language req); D = getLanguageDisplayName L;
           r = explain_stream e file req
       in (\<forall>sr. loadStoredResponse e file = Some sr \<and> served_from_cache (events r) \<longrightarrow>
                concat_data (events r) = response sr) \<and>
          (\<not> served_from_cache (events r) \<and> last (events r) = Complete \<longrightarrow>
             store r =
               snd (saveResponse e file i (title q) (concat_data (events r)) (Some L))) \<and>
          (\<forall>cs. \<not> cache_matches (request_refresh req) (loadStoredResponse e file) i L \<and>
                infer e (OLLAMA_MODEL e) (buildPrompt q (Some L)) = Streamed cs Ended \<longrightarrow>
             (let st = on_end (parse e) (foldl (on_data (parse e))
                         \<lparr>fullResponse = [], jsonBuffer = [],
                          written = [Metadata (title q) L D False]\<rparr> cs)
              in events r = written st @ [Complete] \<and>
                 concat_data (events r) = fullResponse st) \<and>
             (complete_lines_ok (parse e) (concat cs) \<longrightarrow>
                events r =
                  Metadata (title q) L D False # relayed (record_fragments (parse e) (concat cs)) @
                  [Complete] \<and>
                concat_data (events r) = concat (record_fragments (parse e) (concat cs)))) \<and>
          (\<forall>msg. \<not> cache_matches (request_refresh req) (loadStoredResponse e file) i L \<and>
                 infer e (OLLAMA_MODEL e) (buildPrompt q (Some L)) = Rejected msg \<longrightarrow>
             concat_data (events r) = generateFallbackResponse q (Some L)))"
  proof (intro allI impI)
    fix i q
    assume h: "questions e \<noteq> [] \<and> request_index req = Some i \<and>
          question_at (questions e) i = Some q"
    then have v: "questions e \<noteq> []" "request_index req = Some i"
      "question_at (questions e) i = Some q" by simp_all
    show "(let L = validateLanguage (requested_language req); D = getLanguageDisplayName L;
           r = explain_stream e file req
       in (\<forall>sr. loadStoredResponse e file = Some sr \<and> served_from_cache (events r) \<longrightarrow>
                concat_data (events r) = response sr) \<and>
          (\<not> served_from_cache (events r) \<and> last (events r) = Complete \<longrightarrow>
             store r =
               snd (saveResponse e file i (title q) (concat_data (events r)) (Some L))) \<and>
          (\<forall>cs. \<not> cache_matches (request_refresh req) (loadStoredResponse e file) i L \<and>
                infer e (OLLAMA_MODEL e) (buildPrompt q (Some L)) = Streamed cs Ended \<longrightarrow>
             (let st = on_end (parse e) (foldl (on_data (parse e))
                         \<lparr>fullResponse = [], jsonBuffer = [],
                          written = [Metadata (title q) L D False]\<rparr> cs)
              in events r = written st @ [Complete] \<and>
                 concat_data (events r) = fullResponse st) \<and>
             (complete_lines_ok (parse e) (concat cs) \<longrightarrow>
                events r =
                  Metadata (title q) L D False # relayed (record_fragments (parse e) (concat cs)) @
                  [Complete] \<and>
                concat_data (events r) = concat (record_fragments (parse e) (concat cs)))) \<and>
          (\<forall>msg. \<not> cache_matches (request_refresh req) (loadStoredResponse e file) i L \<and>
                 infer e (OLLAMA_MODEL e) (buildPrompt q (Some L)) = Rejected msg \<longrightarrow>
             concat_data (events r) = generateFallbackResponse q (Some L)))"
      unfolding Let_def
      using lenient [OF v] lenient_ended [OF v, unfolded Let_def] lenient_rejected [OF v]
      by blast
  qed
  have B: "\<forall>i q L. questions e \<noteq> [] \<and> request_index req = Some i \<and>
          question_at (questions e) i = Some q \<and>
          validateLanguage_fixed (language_param req) = Inr L \<longrightarrow>
      (let D = getLanguageDisplayName_fixed L; r = explain_stream_fixed e file req
       in (\<forall>sr. loadStoredResponse e file = Some sr \<and> served_from_cache (events r) \<longrightarrow>
                concat_data (events r) = response sr) \<and>
          (\<not> served_from_cache (events r) \<and> last (events r) = Complete \<longrightarrow>
             store r =
               snd (saveResponse_fixed e file i (title q) (concat_data (events r))
                     (Some L))) \<and>
          (\<forall>cs prompt.
             \<not> cache_matches (request_refresh req) (loadStoredResponse e file) i L \<and>
             buildPrompt_fixed q (Some L) = Inr prompt \<and>
             infer e ''llama3'' prompt = Streamed cs Ended \<longrightarrow>
             (let st = on_end (parse e) (foldl (on_data (parse e))
                         \<lparr>fullResponse = [], jsonBuffer = [],
                          written = [Metadata (title q) L D False]\<rparr> cs)
              in events r = written st @ [Complete] \<and>
                 concat_data (events r) = fullResponse st) \<and>
             (complete_lines_ok (parse e) (concat cs) \<longrightarrow>
                events r =
                  Metadata (title q) L D False # relayed (record_fragments (parse e) (concat cs)) @
                  [Complete] \<and>
                concat_data (events r) = concat (record_fragments (parse e) (concat cs)))) \<and>
          (\<forall>msg prompt fb.
             \<not> cache_matches (request_refresh req) (loadStoredResponse e file) i L \<and>
             buildPrompt_fixed q (Some L) = Inr prompt \<and>
             generateFallbackResponse_fixed q (Some L) = Inr fb \<and>
             infer e ''llama3'' prompt = Rejected msg \<longrightarrow>
             concat_data (events r) = fb))"
  proof (intro allI impI)
    fix i q L
    assume h: "questions e \<noteq> [] \<and> request_index req = Some i \<and>
          question_at (questions e) i = Some q \<and>
          validateLanguage_fixed (language_param req) = Inr L"
    then have v: "questions e \<noteq> []" "request_index req = Some i"
      "question_at (questions e) i = Some q"
      "validateLanguage_fixed (language_param req) = Inr L" by simp_all
    show "(let D = getLanguageDisplayName_fixed L; r = explain_stream_fixed e file req
       in (\<forall>sr. loadStoredResponse e file = Some sr \<and> served_from_cache (events r) \<longrightarrow>
                concat_data (events r) = response sr) \<and>
          (\<not> served_from_cache (events r) \<and> last (events r) = Complete \<longrightarrow>
             store r =
               snd (saveResponse_fixed e file i (title q) (concat_data (events r))
                     (Some L))) \<and>
          (\<forall>cs prompt.
             \<not> cache_matches (request_refresh req) (loadStoredResponse e file) i L \<and>
             buildPrompt_fixed q (Some L) = Inr prompt \<and>
             infer e ''llama3'' prompt = Streamed cs Ended \<longrightarrow>
             (let st = on_end (parse e) (foldl (on_data (parse e))
                         \<lparr>fullResponse = [], jsonBuffer = [],
                          written = [Metadata (title q) L D False]\<rparr> cs)
              in events r = written st @ [Complete] \<and>
                 concat_data (events r) = fullResponse st) \<and>
             (complete_lines_ok (parse e) (concat cs) \<longrightarrow>
                events r =
                  Metadata (title q) L D False # relayed (record_fragments (parse e) (concat cs)) @
                  [Complete] \<and>
                concat_data (events r) = concat (record_fragments (parse e) (concat cs)))) \<and>
          (\<forall>msg prompt fb.
             \<not> cache_matches (request_refresh req) (loadStoredResponse e file) i L \<and>
             buildPrompt_fixed q (Some L) = Inr prompt \<and>
             generateFallbackResponse_fixed q (Some L) = Inr fb \<and>
             infer e ''llama3'' prompt = Rejected msg \<longrightarrow>
             concat_data (events r) = fb))"
      unfolding Let_def
      using strict [OF v] strict_ended [OF v, unfolded Let_def] strict_rejected [OF v]
      by blast
  qed
  show ?thesis
    using sse_ok_explain_stream sse_ok_explain_stream_fixed A B by blast
qed

lemma streaming_example_events:
  "events (explain_stream env_streaming None request_example) =
     [Metadata ''Two Sum'' ''python'' ''Python'' False, Data ''Use a map. '' False,
      Data ''Scan once.'' False, Complete]"
  by code_simp

lemma streaming_example_events_fixed:
  "events (explain_stream_fixed env_streaming None request_example) =
     [Metadata ''Two Sum'' ''python'' ''Python'' False, Data ''Use a map. '' False,
      Data ''Scan once.'' False, Complete]"
  by code_simp

lemma streaming_example_saved:
  "snd (saveResponse env_streaming None 0 ''Two Sum'' ''Use a map. Scan once.'' (Some ''python'')) =
     Some \<lparr>questionIndex = 0, stored_title = ''Two Sum'', language = ''python'',
           languageDisplay = Some ''Python'', response = ''Use a map. Scan once.'',
           timestamp = ''2025-01-01T00:00:00.000Z''\<rparr>"
  by code_simp

lemma streaming_example_saved_fixed:
  "snd (saveResponse_fixed env_streaming None 0 ''Two Sum'' ''Use a map. Scan once.'' (Some ''python'')) =
     Some \<lparr>questionIndex = 0, stored_title = ''Two Sum'', language = ''python'',
           languageDisplay = None, response = ''Use a map. Scan once.'',
           timestamp = ''2025-01-01T00:00:00.000Z''\<rparr>"
  by code_simp

lemma streaming_example_facts:
  "questions env_streaming \<noteq> []"
  "question_at (questions env_streaming) 0 = Some problem_example"
  "loadStoredResponse env_streaming None = None"
  by (simp_all add: env_streaming_def env_example_def question_at_def loadStoredResponse_def)

lemma unterminated_example_facts:
  "questions env_unterminated \<noteq> []"
  "question_at (questions env_unterminated) 0 = Some problem_example"
  "loadStoredResponse env_unterminated None = None"
  "infer env_unterminated m p = Streamed [''Use a map. \<newline>Scan'', '' once.''] Ended"
  by (simp_all add: env_unterminated_def env_example_def question_at_def loadStoredResponse_def)

lemma unterminated_example_fragments:
  "record_fragments (parse env_unterminated) (concat [''Use a map. \<newline>Scan'', '' once.'']) =
     [''Use a map. '', ''Scan once.'']"
  "complete_lines_ok (parse env_unterminated) (concat [''Use a map. \<newline>Scan'', '' once.''])"
  by code_simp+

theorem stream_events_witness:
  "sse_ok (events (explain_stream env_unterminated None request_example)) \<and>
   events (explain_stream env_unterminated None request_example) =
     [Metadata ''Two Sum'' ''python'' ''Python'' False, Data ''Use a map. '' False,
      Data ''Scan once.'' False, Complete] \<and>
   concat_data (events (explain_stream env_unterminated None request_example)) =
     ''Use a map. Scan once.'' \<and>
   sse_ok (events (explain_stream_fixed env_unterminated None request_example)) \<and>
   events (explain_stream_fixed env_unterminated None request_example) =
     [Metadata ''Two Sum'' ''python'' ''Python'' False, Data ''Use a map. '' False,
      Data ''Scan once.'' False, Complete] \<and>
   concat_data (events (explain_stream_fixed env_unterminated None request_example)) =
     ''Use a map. Scan once.''"
proof -
  have t: "title problem_example = ''Two Sum''" by (simp add: problem_example_def)
  have p: "buildPrompt_fixed problem_example (Some ''python'') =
             Inr (prompt_text_fixed problem_example ''Python'')"
    by (simp add: buildPrompt_fixed_def Let_def python_facts)
  have n: "\<not> cache_matches (request_refresh request_example) None 0 ''python''"
    by (simp add: cache_matches_def)
  have T: "sse_ok (events (explain_stream env_unterminated None request_example)) \<and>
     sse_ok (events (explain_stream_fixed env_unterminated None request_example)) \<and>
     (complete_lines_ok (parse env_unterminated) (concat [''Use a map. \<newline>Scan'', '' once.'']) \<longrightarrow>
        events (explain_stream env_unterminated None request_example) =
          Metadata ''Two Sum'' ''python'' ''Python'' False #
          relayed (record_fragments (parse env_unterminated)
            (concat [''Use a map. \<newline>Scan'', '' once.''])) @ [Complete] \<and>
        concat_data (events (explain_stream env_unterminated None request_example)) =
          concat (record_fragments (parse env_unterminated)
            (concat [''Use a map. \<newline>Scan'', '' once.'']))) \<and>
     (complete_lines_ok (parse env_unterminated) (concat [''Use a map. \<newline>Scan'', '' once.'']) \<longrightarrow>
        events (explain_stream_fixed env_unterminated None request_example) =
          Metadata ''Two Sum'' ''python'' ''Python'' False #
          relayed (record_fragments (parse env_unterminated)
            (concat [''Use a map. \<newline>Scan'', '' once.''])) @ [Complete] \<and>
        concat_data (events (explain_stream_fixed env_unterminated None request_example)) =
          concat (record_fragments (parse env_unterminated)
            (concat [''Use a map. \<newline>Scan'', '' once.''])))"
    using stream_events_well_formed [of env_unterminated None request_example]
    apply (simp (no_asm_use) add: Let_def example_facts(2,4,5) unterminated_example_facts
        python_facts t p n del: concat.simps)
    by blast
  show ?thesis
    using T unterminated_example_fragments(2)
    by (simp add: unterminated_example_fragments(1) relayed_def del: concat.simps)
qed

text \<open>A line that a newline ends and that cannot be decoded is never removed from the
  buffer of the \<^verbatim>\<open>data\<close> listener: the lines before it are relayed again with the next
  chunk, the lines after it never. The concatenation of the data events is still the text
  the listeners accumulated.\<close>

lemma malformed_example_facts:
  "questions env_malformed \<noteq> []"
  "question_at (questions env_malformed) 0 = Some problem_example"
  "loadStoredResponse env_malformed None = None"
  "infer env_malformed m p = Streamed [''A\<newline>BAD\<newline>'', ''B\<newline>''] Ended"
  by (simp_all add: env_malformed_def env_example_def question_at_def loadStoredResponse_def)

lemma malformed_example_events:
  "events (explain_stream env_malformed None request_example) =
     [Metadata ''Two Sum'' ''python'' ''Python'' False, Data ''A'' False, Data ''A'' False,
      Complete]"
  "events (explain_stream_fixed env_malformed None request_example) =
     [Metadata ''Two Sum'' ''python'' ''Python'' False, Data ''A'' False, Data ''A'' False,
      Complete]"
  "\<not> complete_lines_ok (parse env_malformed) (concat [''A\<newline>BAD\<newline>'', ''B\<newline>''])"
  by code_simp+

section \<open>A failing inference endpoint\<close>

lemma validateLanguage_idem: "validateLanguage (Some (validateLanguage x)) = validateLanguage x"
proof -
  have s: "validateLanguage x \<in> set SUPPORTED_LANGUAGES"
    by (auto simp: validateLanguage_def Let_def DEFAULT_LANGUAGE_def SUPPORTED_LANGUAGES_def
        split: option.splits)
  then have "validateLanguage x \<noteq> []" using nil_unsupported by auto
  moreover have "toLowerCase (validateLanguage x) = validateLanguage x"
    using s by (rule supported_lower)
  ultimately show ?thesis using s by (simp add: validateLanguage_def [of "Some (validateLanguage x)"])
qed

lemma saveResponse_written:
  "write_ok e \<Longrightarrow>
   snd (saveResponse e file i t txt (Some (validateLanguage x))) =
     Some \<lparr>questionIndex = i, stored_title = t, language = validateLanguage x,
           languageDisplay = Some (getLanguageDisplayName (validateLanguage x)),
           response = cleanResponseText txt, timestamp = now e\<rparr>"
  by (simp add: saveResponse_def Let_def validateLanguage_idem)

lemma saveResponse_fixed_written:
  "write_ok e \<Longrightarrow> validateLanguage_fixed x = Inr L \<Longrightarrow>
   snd (saveResponse_fixed e file i t txt (Some L)) =
     Some \<lparr>questionIndex = i, stored_title = t, language = L, languageDisplay = None,
           response = cleanResponseText_fixed txt, timestamp = now e\<rparr>"
  by (simp add: saveResponse_fixed_def Let_def validate_validated)

text \<open>C2, as the code has it: for a streaming request that passes validation and
  problem lookup and is not served from the cache. When the request to the inference
  endpoint is rejected (connection refused, timeout, status outside 2xx), the events are
  the metadata event, the fallback text as one data event tagged as a fallback, and the
  complete event, with no error event; the fallback text is handed to the store, which
  persists its sanitized form when the file can be written. When the stream opens and
  then emits an error, the events are the metadata event, the data events the
  \<^verbatim>\<open>data\<close> listener wrote, none tagged as a fallback, and an error event with the
  message of the stream; the store is left as it was. When the stream opens and ends,
  whatever its lines, the events are the metadata event, data events none of which is
  tagged as a fallback, and the complete event.\<close>

theorem inference_failure_handling:
  assumes "questions e \<noteq> []" and "request_index req = Some i"
    and "question_at (questions e) i = Some q"
  shows
    "(let L = validateLanguage (requested_language req); D = getLanguageDisplayName L;
          fb = generateFallbackResponse q (Some L);
          r = explain_stream e file req
      in (\<forall>msg. \<not> cache_matches (request_refresh req) (loadStoredResponse e file) i L \<and>
                infer e (OLLAMA_MODEL e) (buildPrompt q (Some L)) = Rejected msg \<longrightarrow>
            events r = [Metadata (title q) L D False, Data fb True, Complete] \<and>
            store r = snd (saveResponse e file i (title q) fb (Some L)) \<and>
            (write_ok e \<longrightarrow>
               store r = Some \<lparr>questionIndex = i, stored_title = title q, language = L,
                                languageDisplay = Some D,
                                response = cleanResponseText fb, timestamp = now e\<rparr>)) \<and>
         (\<forall>cs msg. \<not> cache_matches (request_refresh req) (loadStoredResponse e file) i L \<and>
                infer e (OLLAMA_MODEL e) (buildPrompt q (Some L)) = Streamed cs (Errored msg) \<longrightarrow>
            events r =
              written (foldl (on_data (parse e))
                \<lparr>fullResponse = [], jsonBuffer = [],
                 written = [Metadata (title q) L D False]\<rparr> cs) @ [Error (StreamError msg)] \<and>
            (\<exists>ts. events r =
               Metadata (title q) L D False # relayed ts @ [Error (StreamError msg)]) \<and>
            store r = file) \<and>
         (\<forall>cs. \<not> cache_matches (request_refresh req) (loadStoredResponse e file) i L \<and>
                infer e (OLLAMA_MODEL e) (buildPrompt q (Some L)) = Streamed cs Ended \<longrightarrow>
            (\<exists>ts. events r = Metadata (title q) L D False # relayed ts @ [Complete]))) \<and>
     (\<forall>L prompt.
        validateLanguage_fixed (language_param req) = Inr L \<and>
        buildPrompt_fixed q (Some L) = Inr prompt \<and>
        \<not> cache_matches (request_refresh req) (loadStoredResponse e file) i L \<longrightarrow>
        (let D = getLanguageDisplayName_fixed L; r = explain_stream_fixed e file req
         in (\<forall>msg fb. generateFallbackResponse_fixed q (Some L) = Inr fb \<and>
                  infer e ''llama3'' prompt = Rejected msg \<longrightarrow>
               events r = [Metadata (title q) L D False, Data fb True, Complete] \<and>
               store r = snd (saveResponse_fixed e file i (title q) fb (Some L)) \<and>
               (write_ok e \<longrightarrow>
                  store r = Some \<lparr>questionIndex = i, stored_title = title q, language = L,
                                   languageDisplay = None,
                                   response = cleanResponseText_fixed fb,
                                   timestamp = now e\<rparr>)) \<and>
            (\<forall>cs msg. infer e ''llama3'' prompt = Streamed cs (Errored msg) \<longrightarrow>
               events r =
                 written (foldl (on_data (parse e))
                   \<lparr>fullResponse = [], jsonBuffer = [],
                    written = [Metadata (title q) L D False]\<rparr> cs) @
                 [Error (StreamError msg)] \<and>
               (\<exists>ts. events r =
                  Metadata (title q) L D False # relayed ts @ [Error (StreamError msg)]) \<and>
               store r = file) \<and>
            (\<forall>cs. infer e ''llama3'' prompt = Streamed cs Ended \<longrightarrow>
               (\<exists>ts. events r = Metadata (title q) L D False # relayed ts @ [Complete]))))"
proof -
  let ?L = "validateLanguage (requested_language req)"
  let ?D = "getLanguageDisplayName ?L"
  let ?m = "Metadata (title q) ?L ?D False"
  let ?fb = "generateFallbackResponse q (Some ?L)"
  let ?r = "explain_stream e file req"
  have rej: "events ?r = [?m, Data ?fb True, Complete] \<and>
      store ?r = snd (saveResponse e file i (title q) ?fb (Some ?L)) \<and>
      (write_ok e \<longrightarrow>
         store ?r = Some \<lparr>questionIndex = i, stored_title = title q, language = ?L,
                          languageDisplay = Some ?D,
                          response = cleanResponseText ?fb, timestamp = now e\<rparr>)"
    if n: "\<not> cache_matches (request_refresh req) (loadStoredResponse e file) i ?L"
      and s: "infer e (OLLAMA_MODEL e) (buildPrompt q (Some ?L)) = Rejected msg" for msg
    using explain_stream_generates [OF assms n] generate_stream_rejected [OF s, of "file" i ?D]
      saveResponse_written [of e "file" i "title q" ?fb "requested_language req"]
    by simp
  have err: "events ?r =
        written (foldl (on_data (parse e))
          \<lparr>fullResponse = [], jsonBuffer = [], written = [?m]\<rparr> cs) @ [Error (StreamError msg)] \<and>
      (\<exists>ts. events ?r = ?m # relayed ts @ [Error (StreamError msg)]) \<and>
      store ?r = file"
    if n: "\<not> cache_matches (request_refresh req) (loadStoredResponse e file) i ?L"
      and s: "infer e (OLLAMA_MODEL e) (buildPrompt q (Some ?L)) = Streamed cs (Errored msg)"
    for cs msg
  proof -
    obtain ts where "written (foldl (on_data (parse e))
          \<lparr>fullResponse = [], jsonBuffer = [], written = [?m]\<rparr> cs) = ?m # relayed ts"
      using errored_stream_relayed by blast
    then show ?thesis
      using explain_stream_generates [OF assms n] generate_stream_errored [OF s, of "file" i ?D]
      by auto
  qed
  have fin: "\<exists>ts. events ?r = ?m # relayed ts @ [Complete]"
    if n: "\<not> cache_matches (request_refresh req) (loadStoredResponse e file) i ?L"
      and s: "infer e (OLLAMA_MODEL e) (buildPrompt q (Some ?L)) = Streamed cs Ended" for cs
  proof -
    obtain ts where "written (on_end (parse e) (foldl (on_data (parse e))
          \<lparr>fullResponse = [], jsonBuffer = [], written = [?m]\<rparr> cs)) = ?m # relayed ts"
      using ended_stream_relayed by blast
    then show ?thesis
      using explain_stream_generates [OF assms n] generate_stream_ended [OF s, of "file" i ?D]
      by (auto simp add: Let_def)
  qed
  have strict:
    "(\<forall>msg fb. generateFallbackResponse_fixed q (Some L) = Inr fb \<and>
             infer e ''llama3'' prompt = Rejected msg \<longrightarrow>
          events (explain_stream_fixed e file req) =
            [Metadata (title q) L (getLanguageDisplayName_fixed L) False, Data fb True, Complete] \<and>
          store (explain_stream_fixed e file req) =
            snd (saveResponse_fixed e file i (title q) fb (Some L)) \<and>
          (write_ok e \<longrightarrow>
             store (explain_stream_fixed e file req) =
               Some \<lparr>questionIndex = i, stored_title = title q, language = L,
                     languageDisplay = None, response = cleanResponseText_fixed fb,
                     timestamp = now e\<rparr>)) \<and>
     (\<forall>cs msg. infer e ''llama3'' prompt = Streamed cs (Errored msg) \<longrightarrow>
          events (explain_stream_fixed e file req) =
            written (foldl (on_data (parse e))
              \<lparr>fullResponse = [], jsonBuffer = [],
               written = [Metadata (title q) L (getLanguageDisplayName_fixed L) False]\<rparr> cs) @
            [Error (StreamError msg)] \<and>
          (\<exists>ts. events (explain_stream_fixed e file req) =
             Metadata (title q) L (getLanguageDisplayName_fixed L) False # relayed ts @
             [Error (StreamError msg)]) \<and>
          store (explain_stream_fixed e file req) = file) \<and>
     (\<forall>cs. infer e ''llama3'' prompt = Streamed cs Ended \<longrightarrow>
          (\<exists>ts. events (explain_stream_fixed e file req) =
             Metadata (title q) L (getLanguageDisplayName_fixed L) False # relayed ts @
             [Complete]))"
    if v: "validateLanguage_fixed (language_param req) = Inr L"
      and p: "buildPrompt_fixed q (Some L) = Inr prompt"
      and n: "\<not> cache_matches (request_refresh req) (loadStoredResponse e file) i L"
    for L prompt
  proof -
    let ?D = "getLanguageDisplayName_fixed L"
    let ?m = "Metadata (title q) L ?D False"
    let ?r = "explain_stream_fixed e file req"
    have g: "?r = generate_stream_fixed e file i q L ?D"
      using explain_stream_fixed_generates [OF assms v n] .
    have rej: "events ?r = [?m, Data fb True, Complete] \<and>
        store ?r = snd (saveResponse_fixed e file i (title q) fb (Some L)) \<and>
        (write_ok e \<longrightarrow>
           store ?r = Some \<lparr>questionIndex = i, stored_title = title q, language = L,
                            languageDisplay = None, response = cleanResponseText_fixed fb,
                            timestamp = now e\<rparr>)"
      if f: "generateFallbackResponse_fixed q (Some L) = Inr fb"
        and s: "infer e ''llama3'' prompt = Rejected msg" for msg fb
      using g generate_stream_fixed_rejected [OF p f s, of "file" i ?D]
        saveResponse_fixed_written [OF _ v, of e "file" i "title q" fb]
      by simp
    have err: "events ?r =
          written (foldl (on_data (parse e))
            \<lparr>fullResponse = [], jsonBuffer = [], written = [?m]\<rparr> cs) @
          [Error (StreamError msg)] \<and>
        (\<exists>ts. events ?r = ?m # relayed ts @ [Error (StreamError msg)]) \<and>
        store ?r = file"
      if s: "infer e ''llama3'' prompt = Streamed cs (Errored msg)" for cs msg
    proof -
      obtain ts where "written (foldl (on_data (parse e))
            \<lparr>fullResponse = [], jsonBuffer = [], written = [?m]\<rparr> cs) = ?m # relayed ts"
        using errored_stream_relayed by blast
      then show ?thesis
        using g generate_stream_fixed_errored [OF p s, of "file" i ?D] by auto
    qed
    have fin: "\<exists>ts. events ?r = ?m # relayed ts @ [Complete]"
      if s: "infer e ''llama3'' prompt = Streamed cs Ended" for cs
    proof -
      obtain ts where "written (on_end (parse e) (foldl (on_data (parse e))
            \<lparr>fullResponse = [], jsonBuffer = [], written = [?m]\<rparr> cs)) = ?m # relayed ts"
        using ended_stream_relayed by blast
      then show ?thesis
        using g generate_stream_fixed_ended [OF p s, of "file" i ?D] by (auto simp add: Let_def)
    qed
    show ?thesis using rej err fin by blast
  qed
  have A: "(\<forall>msg. \<not> cache_matches (request_refresh req) (loadStoredResponse e file) i ?L \<and>
                infer e (OLLAMA_MODEL e) (buildPrompt q (Some ?L)) = Rejected msg \<longrightarrow>
            events ?r = [?m, Data ?fb True, Complete] \<and>
            store ?r = snd (saveResponse e file i (title q) ?fb (Some ?L)) \<and>
            (write_ok e \<longrightarrow>
               store ?r = Some \<lparr>questionIndex = i, stored_title = title q, language = ?L,
                                languageDisplay = Some ?D,
                                response = cleanResponseText ?fb, timestamp = now e\<rparr>)) \<and>
         (\<forall>cs msg. \<not> cache_matches (request_refresh req) (loadStoredResponse e file) i ?L \<and>
                infer e (OLLAMA_MODEL e) (buildPrompt q (Some ?L)) = Streamed cs (Errored msg) \<longrightarrow>
            events ?r =
              written (foldl (on_data (parse e))
                \<lparr>fullResponse = [], jsonBuffer = [], written = [?m]\<rparr> cs) @
              [Error (StreamError msg)] \<and>
            (\<exists>ts. events ?r = ?m # relayed ts @ [Error (StreamError msg)]) \<and>
            store ?r = file) \<and>
         (\<forall>cs. \<not> cache_matches (request_refresh req) (loadStoredResponse e file) i ?L \<and>
                infer e (OLLAMA_MODEL e) (buildPrompt q (Some ?L)) = Streamed cs Ended \<longrightarrow>
            (\<exists>ts. events ?r = ?m # relayed ts @ [Complete]))"
    using rej err fin by blast
  show ?thesis
    unfolding Let_def using A strict by blast
qed

lemma rejected_example_facts:
  "loadStoredResponse env_example None = None"
  "infer env_example m p = Rejected ''ECONNREFUSED''"
  "write_ok env_example"
  "now env_example = ''2025-01-01T00:00:00.000Z''"
  "title problem_example = ''Two Sum''"
  by (simp_all add: env_example_def loadStoredResponse_def problem_example_def)

lemma broken_example_facts:
  "questions env_broken \<noteq> []"
  "question_at (questions env_broken) 0 = Some problem_example"
  "loadStoredResponse env_broken None = None"
  "infer env_broken m p = Streamed [''Use a map. \<newline>Scan''] (Errored ''socket hang up'')"
  by (simp_all add: env_broken_def env_example_def question_at_def loadStoredResponse_def)

lemma broken_example_relayed:
  "written (on_data (parse env_broken)
     \<lparr>fullResponse = [], jsonBuffer = [],
      written = [Metadata ''Two Sum'' ''python'' ''Python'' False]\<rparr>
     ''Use a map. \<newline>Scan'') =
   [Metadata ''Two Sum'' ''python'' ''Python'' False, Data ''Use a map. '' False]"
  by code_simp

theorem inference_failure_handling_witness:
  "events (explain_stream env_example None request_example) =
     [Metadata ''Two Sum'' ''python'' ''Python'' False,
      Data (fallback_text problem_example ''Python'' (getLanguageSpecificContext ''python'')) True,
      Complete] \<and>
   store (explain_stream env_example None request_example) =
     Some \<lparr>questionIndex = 0, stored_title = ''Two Sum'', language = ''python'',
           languageDisplay = Some ''Python'',
           response = cleanResponseText
             (fallback_text problem_example ''Python'' (getLanguageSpecificContext ''python'')),
           timestamp = ''2025-01-01T00:00:00.000Z''\<rparr> \<and>
   events (explain_stream_fixed env_example None request_example) =
     [Metadata ''Two Sum'' ''python'' ''Python'' False,
      Data (fallback_text_fixed problem_example ''Python'') True, Complete] \<and>
   store (explain_stream_fixed env_example None request_example) =
     Some \<lparr>questionIndex = 0, stored_title = ''Two Sum'', language = ''python'',
           languageDisplay = None,
           response = cleanResponseText_fixed (fallback_text_fixed problem_example ''Python''),
           timestamp = ''2025-01-01T00:00:00.000Z''\<rparr> \<and>
   events (explain_stream env_broken None request_example) =
     [Metadata ''Two Sum'' ''python'' ''Python'' False, Data ''Use a map. '' False,
      Error (StreamError ''socket hang up'')] \<and>
   store (explain_stream env_broken None request_example) = None \<and>
   events (explain_stream_fixed env_broken None request_example) =
     [Metadata ''Two Sum'' ''python'' ''Python'' False, Data ''Use a map. '' False,
      Error (StreamError ''socket hang up'')] \<and>
   store (explain_stream_fixed env_broken None request_example) = None \<and>
   (\<exists>ts. events (explain_stream env_malformed None request_example) =
      Metadata ''Two Sum'' ''python'' ''Python'' False # relayed ts @ [Complete]) \<and>
   (\<exists>ts. events (explain_stream_fixed env_malformed None request_example) =
      Metadata ''Two Sum'' ''python'' ''Python'' False # relayed ts @ [Complete])"
proof -
  have t: "title problem_example = ''Two Sum''" by (simp add: problem_example_def)
  have f: "generateFallbackResponse problem_example (Some ''python'') =
             fallback_text problem_example ''Python'' (getLanguageSpecificContext ''python'')"
    by (simp add: generateFallbackResponse_def Let_def python_facts)
  have ff: "generateFallbackResponse_fixed problem_example (Some ''python'') =
             Inr (fallback_text_fixed problem_example ''Python'')"
    by (simp add: generateFallbackResponse_fixed_def Let_def python_facts)
  have p: "buildPrompt_fixed problem_example (Some ''python'') =
             Inr (prompt_text_fixed problem_example ''Python'')"
    by (simp add: buildPrompt_fixed_def Let_def python_facts)
  have n: "\<not> cache_matches (request_refresh request_example) None 0 ''python''"
    by (simp add: cache_matches_def)
  have R: "events (explain_stream env_example None request_example) =
       [Metadata ''Two Sum'' ''python'' ''Python'' False,
        Data (fallback_text problem_example ''Python'' (getLanguageSpecificContext ''python'')) True,
        Complete] \<and>
     store (explain_stream env_example None request_example) =
       Some \<lparr>questionIndex = 0, stored_title = ''Two Sum'', language = ''python'',
             languageDisplay = Some ''Python'',
             response = cleanResponseText
               (fallback_text problem_example ''Python'' (getLanguageSpecificContext ''python'')),
             timestamp = ''2025-01-01T00:00:00.000Z''\<rparr> \<and>
     events (explain_stream_fixed env_example None request_example) =
       [Metadata ''Two Sum'' ''python'' ''Python'' False,
        Data (fallback_text_fixed problem_example ''Python'') True, Complete] \<and>
     store (explain_stream_fixed env_example None request_example) =
       Some \<lparr>questionIndex = 0, stored_title = ''Two Sum'', language = ''python'',
             languageDisplay = None,
             response = cleanResponseText_fixed (fallback_text_fixed problem_example ''Python''),
             timestamp = ''2025-01-01T00:00:00.000Z''\<rparr>"
    using inference_failure_handling [OF example_facts(1,2,3), of None]
    apply (simp (no_asm_use) add: Let_def example_facts(4,5) rejected_example_facts
        python_facts f ff p n)
    by blast
  have E: "events (explain_stream env_broken None request_example) =
       [Metadata ''Two Sum'' ''python'' ''Python'' False, Data ''Use a map. '' False,
        Error (StreamError ''socket hang up'')] \<and>
     store (explain_stream env_broken None request_example) = None \<and>
     events (explain_stream_fixed env_broken None request_example) =
       [Metadata ''Two Sum'' ''python'' ''Python'' False, Data ''Use a map. '' False,
        Error (StreamError ''socket hang up'')] \<and>
     store (explain_stream_fixed env_broken None request_example) = None"
    using inference_failure_handling
      [OF broken_example_facts(1) example_facts(2) broken_example_facts(2), of None]
    apply (simp (no_asm_use) add: Let_def example_facts(4,5) broken_example_facts
        python_facts t p n)
    by (simp add: broken_example_relayed)
  have C: "(\<exists>ts. events (explain_stream env_malformed None request_example) =
        Metadata ''Two Sum'' ''python'' ''Python'' False # relayed ts @ [Complete]) \<and>
     (\<exists>ts. events (explain_stream_fixed env_malformed None request_example) =
        Metadata ''Two Sum'' ''python'' ''Python'' False # relayed ts @ [Complete])"
    using inference_failure_handling
      [OF malformed_example_facts(1) example_facts(2) malformed_example_facts(2), of None]
    by (simp (no_asm_use) add: Let_def example_facts(4,5) malformed_example_facts
        python_facts t p n)
  show ?thesis using R E C by blast
qed

text \<open>C2 fails as stated for a failure during streaming: when the stream of the
  inference endpoint breaks, the \<^verbatim>\<open>error\<close> listener writes an error event, no fallback
  text is sent and nothing is persisted.\<close>

theorem stream_error_reaches_client:
  "events (explain_stream env_stream_error None request_example) =
     [Metadata ''Two Sum'' ''python'' ''Python'' False, Error (StreamError ''socket hang up'')] \<and>
   store (explain_stream env_stream_error None request_example) = None \<and>
   events (explain_stream_fixed env_stream_error None request_example) =
     [Metadata ''Two Sum'' ''python'' ''Python'' False, Error (StreamError ''socket hang up'')] \<and>
   store (explain_stream_fixed env_stream_error None request_example) = None"
  by code_simp

section \<open>The streaming and the non-streaming endpoint\<close>

text \<open>The listeners of the two endpoints accumulate the same text.\<close>

lemma collect_lines_relay_lines:
  "collect_lines prs ls full =
     (fst (fst (relay_lines prs ls full evs)), snd (relay_lines prs ls full evs))"
  by (induction ls arbitrary: full evs) (auto split: parsed.splits)

lemma collect_data_on_data:
  "collect_data prs (fullResponse st, jsonBuffer st) c =
     (fullResponse (on_data prs st c), jsonBuffer (on_data prs st c))"
proof -
  let ?ls = "butlast (split_nl (jsonBuffer st @ c))"
  obtain full evs b where r: "relay_lines prs ?ls (fullResponse st) (written st) = ((full, evs), b)"
    by (metis surj_pair)
  then have "collect_lines prs ?ls (fullResponse st) = (full, b)"
    using collect_lines_relay_lines [of prs ?ls "fullResponse st" "written st"] by simp
  then show ?thesis using r by (cases b) (simp_all add: collect_data_def on_data_def Let_def)
qed

lemma foldl_collect_data_on_data:
  "foldl (collect_data prs) (fullResponse st, jsonBuffer st) cs =
     (fullResponse (foldl (on_data prs) st cs), jsonBuffer (foldl (on_data prs) st cs))"
  by (induction cs arbitrary: st) (simp_all add: collect_data_on_data)

lemma collect_end_on_end:
  "collect_end prs (fullResponse st, jsonBuffer st) = fullResponse (on_end prs st)"
  by (simp add: collect_end_def on_end_def split: parsed.splits)

lemma collected_is_relayed:
  "collect_end prs (foldl (collect_data prs) ([], []) cs) =
     fullResponse (on_end prs (foldl (on_data prs)
        \<lparr>fullResponse = [], jsonBuffer = [], written = [m]\<rparr> cs))"
proof -
  let ?st0 = "\<lparr>fullResponse = [], jsonBuffer = [], written = [m]\<rparr>"
  have "foldl (collect_data prs) ([], []) cs =
          foldl (collect_data prs) (fullResponse ?st0, jsonBuffer ?st0) cs"
    by simp
  then show ?thesis
    by (simp only: foldl_collect_data_on_data collect_end_on_end)
qed

lemma relayed_text:
  "concat_data (written (on_end prs (foldl (on_data prs)
        \<lparr>fullResponse = [], jsonBuffer = [], written = [Metadata a b c d]\<rparr> cs)) @ [Complete]) =
   collect_end prs (foldl (collect_data prs) ([], []) cs)"
proof -
  obtain ds where "all_data ds"
    "written (on_end prs (foldl (on_data prs)
        \<lparr>fullResponse = [], jsonBuffer = [], written = [Metadata a b c d]\<rparr> cs)) = Metadata a b c d # ds"
    "fullResponse (on_end prs (foldl (on_data prs)
        \<lparr>fullResponse = [], jsonBuffer = [], written = [Metadata a b c d]\<rparr> cs)) = concat_data ds"
    using relayed_stream_end by blast
  then show ?thesis
    by (simp add: collected_is_relayed [of prs cs "Metadata a b c d"] concat_data_append)
qed

lemma generate_agrees:
  assumes "reply (generate e file i q L D) = Json b"
    and "last (events (generate_stream e file i q L D)) = Complete"
  shows "concat_data (events (generate_stream e file i q L D)) = body_response b"
proof (cases "infer e (OLLAMA_MODEL e) (buildPrompt q (Some L))")
  case (Rejected msg)
  then show ?thesis using assms(1) by (auto simp: generate_def generate_stream_def Let_def)
next
  case (Streamed cs fin)
  show ?thesis
  proof (cases fin)
    case Ended
    then show ?thesis
      using assms(1) Streamed relayed_text [of "parse e" "title q" L D False cs]
      by (auto simp: generate_def generate_stream_def Let_def)
  next
    case (Errored msg)
    then show ?thesis using assms(1) Streamed by (simp add: generate_def Let_def)
  qed
qed

lemma generate_fixed_agrees:
  assumes "reply (generate_fixed e file i q L D) = Json b"
    and "last (events (generate_stream_fixed e file i q L D)) = Complete"
  shows "concat_data (events (generate_stream_fixed e file i q L D)) = body_response b"
proof (cases "buildPrompt_fixed q (Some L)")
  case (Inl err)
  then show ?thesis using assms(1) by (simp add: generate_fixed_def)
next
  case (Inr prompt)
  show ?thesis
  proof (cases "infer e ''llama3'' prompt")
    case (Rejected msg)
    then show ?thesis
      using assms Inr
      by (auto simp: generate_fixed_def generate_stream_fixed_def fallback_reply_def Let_def
          split: sum.splits)
  next
    case (Streamed cs fin)
    show ?thesis
    proof (cases fin)
      case Ended
      then show ?thesis
        using assms(1) Inr Streamed relayed_text [of "parse e" "title q" L D False cs]
        by (auto simp: generate_fixed_def generate_stream_fixed_def Let_def)
    next
      case (Errored msg)
      then show ?thesis
        using assms(2) Inr Streamed
        by (simp add: generate_stream_fixed_def Let_def)
    qed
  qed
qed

text \<open>C3, as the code has it: for every request, catalog, store and behaviour of the
  inference endpoint, whenever the non-streaming endpoint replies with a body and the
  stream of the streaming endpoint ends with the complete event, the concatenation of the
  payloads of the data events, in emission order, is the response text of the body. This
  covers the cache hit, the rejected inference request (fallback text) and the inference
  stream that ends normally.\<close>

theorem streamed_text_is_reply_text:
  "(\<forall>b. reply (explain e file req) = Json b \<and>
        last (events (explain_stream e file req)) = Complete \<longrightarrow>
        concat_data (events (explain_stream e file req)) = body_response b) \<and>
   (\<forall>b. reply (explain_fixed e file req) = Json b \<and>
        last (events (explain_stream_fixed e file req)) = Complete \<longrightarrow>
        concat_data (events (explain_stream_fixed e file req)) = body_response b)"
proof -
  have lenient: "concat_data (events (explain_stream e file req)) = body_response b"
    if "reply (explain e file req) = Json b"
      and "last (events (explain_stream e file req)) = Complete" for b
    using that generate_agrees
    by (auto simp: explain_def explain_stream_def Let_def split: option.splits if_splits)
  have strict: "concat_data (events (explain_stream_fixed e file req)) = body_response b"
    if "reply (explain_fixed e file req) = Json b"
      and "last (events (explain_stream_fixed e file req)) = Complete" for b
    using that generate_fixed_agrees
    by (auto simp: explain_fixed_def explain_stream_fixed_def Let_def
        split: option.splits if_splits sum.splits)
  show ?thesis using lenient strict by blast
qed

lemma streaming_example_reply:
  "reply (explain env_streaming None request_example) =
     Json \<lparr>body_title = ''Two Sum'', body_language = None, body_languageDisplay = None,
           body_response = ''Use a map. Scan once.'', body_fromCache = None,
           body_fallback = None\<rparr>"
  by code_simp

lemma streaming_example_reply_fixed:
  "reply (explain_fixed env_streaming None request_example) =
     Json \<lparr>body_title = ''Two Sum'', body_language = Some ''python'',
           body_languageDisplay = Some ''Python'',
           body_response = ''Use a map. Scan once.'', body_fromCache = None,
           body_fallback = None\<rparr>"
  by code_simp

theorem streamed_text_is_reply_text_witness:
  "concat_data (events (explain_stream env_streaming None request_example)) =
     ''Use a map. Scan once.'' \<and>
   reply (explain env_streaming None request_example) =
     Json \<lparr>body_title = ''Two Sum'', body_language = None, body_languageDisplay = None,
           body_response = ''Use a map. Scan once.'', body_fromCache = None,
           body_fallback = None\<rparr> \<and>
   concat_data (events (explain_stream_fixed env_streaming None request_example)) =
     ''Use a map. Scan once.'' \<and>
   reply (explain_fixed env_streaming None request_example) =
     Json \<lparr>body_title = ''Two Sum'', body_language = Some ''python'',
           body_languageDisplay = Some ''Python'',
           body_response = ''Use a map. Scan once.'', body_fromCache = None,
           body_fallback = None\<rparr>"
proof -
  have l: "last (events (explain_stream env_streaming None request_example)) = Complete"
    "last (events (explain_stream_fixed env_streaming None request_example)) = Complete"
    by (simp_all add: streaming_example_events streaming_example_events_fixed)
  show ?thesis
    using streamed_text_is_reply_text [of env_streaming None request_example] l
    by (simp add: streaming_example_reply streaming_example_reply_fixed)
qed

lemma stream_error_example_facts:
  "questions env_stream_error \<noteq> []"
  "question_at (questions env_stream_error) 0 = Some problem_example"
  "loadStoredResponse env_stream_error None = None"
  "infer env_stream_error m p = Streamed [] (Errored ''socket hang up'')"
  "write_ok env_stream_error"
  "now env_stream_error = ''2025-01-01T00:00:00.000Z''"
  by (simp_all add: env_stream_error_def env_example_def question_at_def loadStoredResponse_def)

lemma fallback_text_fixed_nonempty: "fallback_text_fixed q D \<noteq> []"
  by (simp add: fallback_text_fixed_def)

lemma stream_error_example_reply_fixed:
  "reply (explain_fixed env_stream_error None request_example) =
     Json \<lparr>body_title = ''Two Sum'', body_language = Some ''python'',
           body_languageDisplay = Some ''Python'',
           body_response = fallback_text_fixed problem_example ''Python'',
           body_fromCache = None, body_fallback = Some True\<rparr>"
proof -
  have f: "\<not> falsy (language_param request_example)"
    by (simp add: falsy_def request_example_def)
  have t: "title problem_example = ''Two Sum''" by (simp add: problem_example_def)
  show ?thesis
    using stream_error_example_facts f
    by (simp add: explain_fixed_def generate_fixed_def fallback_reply_def Let_def
        example_facts python_facts buildPrompt_fixed_def generateFallbackResponse_fixed_def t)
qed

lemma stream_error_example_events_fixed:
  "events (explain_stream_fixed env_stream_error None request_example) =
     [Metadata ''Two Sum'' ''python'' ''Python'' False, Error (StreamError ''socket hang up'')]"
proof -
  have f: "\<not> falsy (language_param request_example)"
    by (simp add: falsy_def request_example_def)
  have t: "title problem_example = ''Two Sum''" by (simp add: problem_example_def)
  show ?thesis
    using stream_error_example_facts f
    by (simp add: explain_stream_fixed_def generate_stream_fixed_def Let_def
        example_facts python_facts buildPrompt_fixed_def t)
qed

text \<open>C3 fails as stated when the inference stream breaks: the streaming endpoint of
  the strict server relays what arrived (here nothing) and ends with an error event, while
  its non-streaming endpoint replies with the fallback text.\<close>

theorem stream_error_texts_differ:
  "concat_data (events (explain_stream_fixed env_stream_error None request_example)) = [] \<and>
   reply (explain_fixed env_stream_error None request_example) =
     Json \<lparr>body_title = ''Two Sum'', body_language = Some ''python'',
           body_languageDisplay = Some ''Python'',
           body_response = fallback_text_fixed problem_example ''Python'',
           body_fromCache = None, body_fallback = Some True\<rparr> \<and>
   fallback_text_fixed problem_example ''Python'' \<noteq> []"
  using stream_error_example_reply_fixed fallback_text_fixed_nonempty
  by (simp add: stream_error_example_events_fixed)

section \<open>The non-streaming endpoint of the lenient server stores the default language\<close>

lemma explain_valid:
  assumes "questions e \<noteq> []" and "request_index req = Some i"
    and "question_at (questions e) i = Some q"
  shows "explain e file req =
     (let L = validateLanguage (requested_language req); D = getLanguageDisplayName L
      in case loadStoredResponse e file of
           None \<Rightarrow> generate e file i q L D
         | Some sr \<Rightarrow>
             if cache_matches (request_refresh req) (Some sr) i L
             then \<lparr>reply = Json \<lparr>body_title = title q, body_language = Some L,
                                  body_languageDisplay = Some D,
                                  body_response = response sr, body_fromCache = Some True,
                                  body_fallback = None\<rparr>,
                   store_after = file, posted_prompts = []\<rparr>
             else generate e file i q L D)"
  using assms
  by (simp add: explain_def Let_def requested_language_def cache_matches_def
      split: option.splits)

lemma default_language_facts:
  "validateLanguage (Some DEFAULT_LANGUAGE) = ''python''"
  "getLanguageDisplayName ''python'' = ''Python''"
  using python_facts by (simp_all add: DEFAULT_LANGUAGE_def)

text \<open>C10: on the lenient server, for a request that passes problem lookup, is not
  served from the cache and whose inference stream ends normally, the non-streaming
  endpoint persists a record whose language is \<open>python\<close> whatever language was
  requested (\<open>saveResponse\<close> is called without the language), and its reply carries
  the title and the response only; the streaming endpoint persists the requested
  language with the same text.\<close>

theorem lenient_explain_persists_default_language:
  assumes "questions e \<noteq> []" and "request_index req = Some i"
    and "question_at (questions e) i = Some q"
    and "\<not> cache_matches (request_refresh req) (loadStoredResponse e file) i
           (validateLanguage (requested_language req))"
    and "infer e (OLLAMA_MODEL e)
           (buildPrompt q (Some (validateLanguage (requested_language req)))) = Streamed cs Ended"
    and "write_ok e"
  shows
    "(let L = validateLanguage (requested_language req);
          full = collect_end (parse e) (foldl (collect_data (parse e)) ([], []) cs)
      in reply (explain e file req) =
           Json \<lparr>body_title = title q, body_language = None, body_languageDisplay = None,
                 body_response = full, body_fromCache = None, body_fallback = None\<rparr> \<and>
         store_after (explain e file req) =
           Some \<lparr>questionIndex = i, stored_title = title q, language = ''python'',
                 languageDisplay = Some ''Python'', response = cleanResponseText full,
                 timestamp = now e\<rparr> \<and>
         store (explain_stream e file req) =
           Some \<lparr>questionIndex = i, stored_title = title q, language = L,
                 languageDisplay = Some (getLanguageDisplayName L),
                 response = cleanResponseText full, timestamp = now e\<rparr>)"
proof -
  let ?L = "validateLanguage (requested_language req)"
  let ?D = "getLanguageDisplayName ?L"
  let ?full = "collect_end (parse e) (foldl (collect_data (parse e)) ([], []) cs)"
  have x: "explain e file req = generate e file i q ?L ?D"
    using explain_valid [OF assms(1,2,3), of "file"] assms(4)
    by (simp add: Let_def split: option.splits)
  have s: "explain_stream e file req = generate_stream e file i q ?L ?D"
    using explain_stream_valid [OF assms(1,2,3), of "file"] assms(4)
    by (simp add: Let_def split: option.splits)
  have saved: "snd (saveResponse e file i (title q) ?full None) =
       Some \<lparr>questionIndex = i, stored_title = title q, language = ''python'',
             languageDisplay = Some ''Python'', response = cleanResponseText ?full,
             timestamp = now e\<rparr>"
    using assms(6) by (simp add: saveResponse_def Let_def default_language_facts)
  have g: "reply (generate e file i q ?L ?D) =
           Json \<lparr>body_title = title q, body_language = None, body_languageDisplay = None,
                 body_response = ?full, body_fromCache = None, body_fallback = None\<rparr>"
    "store_after (generate e file i q ?L ?D) = snd (saveResponse e file i (title q) ?full None)"
    using assms(5) by (simp_all add: generate_def Let_def)
  have gs: "store (generate_stream e file i q ?L ?D) =
      snd (saveResponse e file i (title q) ?full (Some ?L))"
    using assms(5) collected_is_relayed [of "parse e" cs "Metadata (title q) ?L ?D False"]
    by (simp add: generate_stream_def Let_def)
  show ?thesis
    unfolding Let_def x s
    using g saved gs saveResponse_written [OF assms(6), of "file" i "title q" ?full]
    by simp
qed

lemma java_example_facts:
  "request_index request_java = Some 0"
  "validateLanguage (requested_language request_java) = ''java''"
  "getLanguageDisplayName ''java'' = ''Java''"
proof -
  show "request_index request_java = Some 0"
    by (simp add: request_index_def request_java_def parseInt_def parse_unsigned_def
        parse_digits_def digit_value_def is_space_def)
  have l: "toLowerCase ''Java'' = ''java''" by code_simp
  show "validateLanguage (requested_language request_java) = ''java''"
    by (simp add: requested_language_def request_java_def falsy_def validateLanguage_def
        l SUPPORTED_LANGUAGES_def)
  show "getLanguageDisplayName ''java'' = ''Java''"
    by (simp add: getLanguageDisplayName_def)
qed

lemma streaming_example_collected:
  "collect_end (parse env_streaming)
     (foldl (collect_data (parse env_streaming)) ([], [])
        [''Use a map. \<newline>'', ''Scan once.\<newline>'']) = ''Use a map. Scan once.''"
  by code_simp

lemma streaming_example_clean:
  "cleanResponseText ''Use a map. Scan once.'' = ''Use a map. Scan once.''"
  by code_simp

theorem lenient_explain_persists_default_language_witness:
  "reply (explain env_streaming None request_java) =
     Json \<lparr>body_title = ''Two Sum'', body_language = None, body_languageDisplay = None,
           body_response = ''Use a map. Scan once.'', body_fromCache = None,
           body_fallback = None\<rparr> \<and>
   store_after (explain env_streaming None request_java) =
     Some \<lparr>questionIndex = 0, stored_title = ''Two Sum'', language = ''python'',
           languageDisplay = Some ''Python'', response = ''Use a map. Scan once.'',
           timestamp = ''2025-01-01T00:00:00.000Z''\<rparr> \<and>
   store (explain_stream env_streaming None request_java) =
     Some \<lparr>questionIndex = 0, stored_title = ''Two Sum'', language = ''java'',
           languageDisplay = Some ''Java'', response = ''Use a map. Scan once.'',
           timestamp = ''2025-01-01T00:00:00.000Z''\<rparr>"
proof -
  have a4: "\<not> cache_matches (request_refresh request_java) (loadStoredResponse env_streaming None) 0
           (validateLanguage (requested_language request_java))"
    by (simp add: streaming_example_facts cache_matches_def)
  have a5: "infer env_streaming (OLLAMA_MODEL env_streaming)
           (buildPrompt problem_example (Some (validateLanguage (requested_language request_java)))) =
           Streamed [''Use a map. \<newline>'', ''Scan once.\<newline>''] Ended"
    by (simp add: env_streaming_def)
  have a6: "write_ok env_streaming" by (simp add: env_streaming_def env_example_def)
  have t: "title problem_example = ''Two Sum''"
    "now env_streaming = ''2025-01-01T00:00:00.000Z''"
    by (simp_all add: problem_example_def env_streaming_def env_example_def)
  have c: "collect_end (parse env_streaming)
       (collect_data (parse env_streaming)
          (collect_data (parse env_streaming) ([], []) ''Use a map. \<newline>'') ''Scan once.\<newline>'') =
     ''Use a map. Scan once.''"
    using streaming_example_collected by simp
  show ?thesis
    using lenient_explain_persists_default_language
      [OF streaming_example_facts(1) java_example_facts(1) streaming_example_facts(2) a4 a5 a6]
    by (simp add: Let_def java_example_facts c streaming_example_clean t)
qed

section \<open>Sanitizing twice\<close>

lemma rmatch_min_len: "rmatch r p s = Some n \<Longrightarrow> min_len r \<le> n"
proof (induction r p s arbitrary: n rule: rmatch.induct)
  case (7 k r p c s)
  then show ?case by (auto split: if_splits option.splits)
next
  case (9 k r p c s)
  then show ?case by (auto split: if_splits option.splits)
qed (auto split: if_splits)

lemma rmatch_le: "rmatch r p s = Some n \<Longrightarrow> n \<le> length s"
proof (induction r p s arbitrary: n rule: rmatch.induct)
  case (7 k r p c s)
  then show ?case by (auto split: if_splits option.splits)
next
  case (9 k r p c s)
  then show ?case by (auto split: if_splits option.splits)
qed (auto split: if_splits)

lemma replaceAll_shrinks:
  assumes "rep = [] \<or> length rep < min_len r"
  shows "length (replaceAll r rep p s) \<le> length s \<and>
         (length (replaceAll r rep p s) = length s \<longrightarrow> replaceAll r rep p s = s)"
  using assms
proof (induction r rep p s rule: replaceAll.induct)
  case (1 r rep p)
  show ?case
  proof (cases "rmatch r p []")
    case None
    then show ?thesis by simp
  next
    case (Some n)
    have "n = 0" using rmatch_le [OF Some] by simp
    then have "min_len r = 0" using rmatch_min_len [OF Some] by simp
    then have "rep = []" using "1.prems" by simp
    then show ?thesis using Some by simp
  qed
next
  case (2 r rep p c s)
  show ?case
  proof (cases "rmatch r p (c # s)")
    case None
    then show ?thesis using 2 by auto
  next
    case (Some m)
    show ?thesis
    proof (cases m)
      case 0
      then have "min_len r = 0" using rmatch_min_len [OF Some] by simp
      then have "rep = []" using "2.prems" by simp
      then show ?thesis using 2 Some 0 by auto
    next
      case (Suc n)
      let ?rest = "replaceAll r rep (Some (last (take (Suc n) (c # s)))) (drop n s)"
      have e: "replaceAll r rep p (c # s) = rep @ ?rest" using Some Suc by simp
      have n: "n \<le> length s" using rmatch_le [OF Some] Suc by simp
      have r: "length rep \<le> n"
        using "2.prems" rmatch_min_len [OF Some] Suc by auto
      have "length ?rest \<le> length (drop n s)" using 2 Some Suc by simp
      then have "length (rep @ ?rest) \<le> length s" using n r by simp
      then show ?thesis unfolding e by simp
    qed
  qed
qed

lemma shrink_compose:
  assumes f: "\<And>t::string. length (f t) \<le> length t \<and> (length (f t) = length t \<longrightarrow> f t = t)"
    and g: "\<And>t::string. length (g t) \<le> length t \<and> (length (g t) = length t \<longrightarrow> g t = t)"
  shows "length (g (f t)) \<le> length t \<and> (length (g (f t)) = length t \<longrightarrow> g (f t) = t)"
proof -
  have 1: "length (g (f t)) \<le> length (f t)" using g by blast
  have 2: "length (f t) \<le> length t" using f by blast
  show ?thesis
  proof (intro conjI impI)
    show "length (g (f t)) \<le> length t" using 1 2 by simp
    assume e: "length (g (f t)) = length t"
    then have "length (f t) = length t" using 1 2 by simp
    then have ft: "f t = t" using f by blast
    then have "length (g t) = length t" using e by simp
    then have "g t = t" using g by blast
    then show "g (f t) = t" using ft by simp
  qed
qed

lemma replace_shrinks:
  "length (replace r [] t) \<le> length t \<and> (length (replace r [] t) = length t \<longrightarrow> replace r [] t = t)"
  unfolding replace_def by (rule replaceAll_shrinks) simp

lemma strip_patterns_shrinks:
  "length (strip_patterns ps t) \<le> length t \<and>
   (length (strip_patterns ps t) = length t \<longrightarrow> strip_patterns ps t = t)"
proof (induction ps arbitrary: t)
  case Nil
  then show ?case by simp
next
  case (Cons a ps)
  have "length (strip_patterns ps (replace a [] t)) \<le> length t \<and>
        (length (strip_patterns ps (replace a [] t)) = length t \<longrightarrow>
           strip_patterns ps (replace a [] t) = t)"
    by (rule shrink_compose [where f = "replace a []" and g = "strip_patterns ps"])
       (rule replace_shrinks, rule Cons.IH)
  then show ?case by simp
qed

lemma cleanResponseText_shrinks:
  "length (cleanResponseText t) \<le> length t \<and>
   (length (cleanResponseText t) = length t \<longrightarrow> cleanResponseText t = t)"
proof -
  have a: "\<And>t. length (replace pat_inline [] (replace pat_fence [] t)) \<le> length t \<and>
      (length (replace pat_inline [] (replace pat_fence [] t)) = length t \<longrightarrow>
         replace pat_inline [] (replace pat_fence [] t) = t)"
    by (rule shrink_compose [where f = "replace pat_fence []" and g = "replace pat_inline []"])
       (rule replace_shrinks)+
  show ?thesis
    unfolding cleanResponseText_def
    by (rule shrink_compose [where g = "strip_patterns codePatterns"
          and f = "\<lambda>t. replace pat_inline [] (replace pat_fence [] t)"])
       (rule a, rule strip_patterns_shrinks)
qed

lemma blank_lines_shrinks:
  "length (replace pat_blank_lines [CHR 0x0A, CHR 0x0A] t) \<le> length t \<and>
   (length (replace pat_blank_lines [CHR 0x0A, CHR 0x0A] t) = length t \<longrightarrow>
      replace pat_blank_lines [CHR 0x0A, CHR 0x0A] t = t)"
  unfolding replace_def by (rule replaceAll_shrinks) (simp add: pat_blank_lines_def)

lemma cleanResponseText_fixed_shrinks:
  "length (cleanResponseText_fixed t) \<le> length t \<and>
   (length (cleanResponseText_fixed t) = length t \<longrightarrow> cleanResponseText_fixed t = t)"
proof -
  let ?f1 = "\<lambda>t. replace pat_inline [] (replace pat_fence [] t)"
  let ?f2 = "\<lambda>t. strip_patterns codePatterns_fixed (?f1 t)"
  let ?f3 = "\<lambda>t. replace pat_slice [] (?f2 t)"
  let ?f4 = "\<lambda>t. replace pat_pair [] (?f3 t)"
  let ?f5 = "\<lambda>t. replace pat_object [] (?f4 t)"
  let ?f6 = "\<lambda>t. replace pat_bare_name [] (?f5 t)"
  have 1: "\<And>t. length (?f1 t) \<le> length t \<and> (length (?f1 t) = length t \<longrightarrow> ?f1 t = t)"
    by (rule shrink_compose [where f = "replace pat_fence []" and g = "replace pat_inline []"])
       (rule replace_shrinks)+
  have 2: "\<And>t. length (?f2 t) \<le> length t \<and> (length (?f2 t) = length t \<longrightarrow> ?f2 t = t)"
    by (rule shrink_compose [where f = ?f1 and g = "strip_patterns codePatterns_fixed"])
       (rule 1, rule strip_patterns_shrinks)
  have 3: "\<And>t. length (?f3 t) \<le> length t \<and> (length (?f3 t) = length t \<longrightarrow> ?f3 t = t)"
    by (rule shrink_compose [where f = ?f2 and g = "replace pat_slice []"])
       (rule 2, rule replace_shrinks)
  have 4: "\<And>t. length (?f4 t) \<le> length t \<and> (length (?f4 t) = length t \<longrightarrow> ?f4 t = t)"
    by (rule shrink_compose [where f = ?f3 and g = "replace pat_pair []"])
       (rule 3, rule replace_shrinks)
  have 5: "\<And>t. length (?f5 t) \<le> length t \<and> (length (?f5 t) = length t \<longrightarrow> ?f5 t = t)"
    by (rule shrink_compose [where f = ?f4 and g = "replace pat_object []"])
       (rule 4, rule replace_shrinks)
  have 6: "\<And>t. length (?f6 t) \<le> length t \<and> (length (?f6 t) = length t \<longrightarrow> ?f6 t = t)"
    by (rule shrink_compose [where f = ?f5 and g = "replace pat_bare_name []"])
       (rule 5, rule replace_shrinks)
  show ?thesis
    unfolding cleanResponseText_fixed_def
    by (rule shrink_compose [where f = ?f6
          and g = "replace pat_blank_lines [CHR 0x0A, CHR 0x0A]"])
       (rule 6, rule blank_lines_shrinks)
qed

lemma shrink_progress:
  assumes f: "\<And>t::string. length (f t) \<le> length t \<and> (length (f t) = length t \<longrightarrow> f t = t)"
  shows "f ((f ^^ n) t) = (f ^^ n) t \<or> length ((f ^^ n) t) + n \<le> length t"
proof (induction n)
  case 0
  then show ?case by simp
next
  case (Suc n)
  show ?case
  proof (cases "f ((f ^^ n) t) = (f ^^ n) t")
    case True
    then show ?thesis by simp
  next
    case False
    then have l: "length ((f ^^ n) t) + n \<le> length t" using Suc by blast
    have "length (f ((f ^^ n) t)) \<le> length ((f ^^ n) t)" using f by blast
    moreover have "length (f ((f ^^ n) t)) \<noteq> length ((f ^^ n) t)" using f False by blast
    ultimately have "length (f ((f ^^ n) t)) < length ((f ^^ n) t)" by simp
    then show ?thesis using l by simp
  qed
qed

lemma shrink_fixpoint:
  assumes f: "\<And>t::string. length (f t) \<le> length t \<and> (length (f t) = length t \<longrightarrow> f t = t)"
  shows "f ((f ^^ length t) t) = (f ^^ length t) t"
proof -
  have "f ((f ^^ length t) t) = (f ^^ length t) t \<or> length ((f ^^ length t) t) + length t \<le> length t"
    by (rule shrink_progress [OF f])
  then show ?thesis
  proof
    assume "length ((f ^^ length t) t) + length t \<le> length t"
    then have e: "(f ^^ length t) t = []" by simp
    have "length (f []) \<le> length ([]::string)" using f by blast
    then have "f [] = []" by simp
    then show ?thesis using e by simp
  qed simp
qed

text \<open>C9, as the code has it: a pass of the sanitizer of either server never lengthens
  a text, it leaves the length as it was exactly when it leaves the text as it was (so the
  sanitizer is idempotent on a text exactly when a second pass removes nothing), and
  repeated sanitization reaches a text that sanitization does not change after at most as
  many passes as the text has characters.\<close>

theorem sanitizer_shortens_to_fixed_point:
  "length (cleanResponseText t) \<le> length t \<and>
   (length (cleanResponseText t) = length t) = (cleanResponseText t = t) \<and>
   cleanResponseText ((cleanResponseText ^^ length t) t) = (cleanResponseText ^^ length t) t \<and>
   length (cleanResponseText_fixed t) \<le> length t \<and>
   (length (cleanResponseText_fixed t) = length t) = (cleanResponseText_fixed t = t) \<and>
   cleanResponseText_fixed ((cleanResponseText_fixed ^^ length t) t) =
     (cleanResponseText_fixed ^^ length t) t"
proof -
  have a: "(length (cleanResponseText t) = length t) = (cleanResponseText t = t)"
    using cleanResponseText_shrinks [of t] by auto
  have b: "(length (cleanResponseText_fixed t) = length t) = (cleanResponseText_fixed t = t)"
    using cleanResponseText_fixed_shrinks [of t] by auto
  have c: "cleanResponseText ((cleanResponseText ^^ length t) t) = (cleanResponseText ^^ length t) t"
    by (rule shrink_fixpoint) (rule cleanResponseText_shrinks)
  have d: "cleanResponseText_fixed ((cleanResponseText_fixed ^^ length t) t) =
     (cleanResponseText_fixed ^^ length t) t"
    by (rule shrink_fixpoint) (rule cleanResponseText_fixed_shrinks)
  show ?thesis
    using a b c d cleanResponseText_shrinks [of t] cleanResponseText_fixed_shrinks [of t]
    by blast
qed

text \<open>C9 fails as stated: removing an assignment can join a line break with the
  indentation of the next line, which a second pass then takes for an indented line of
  code.\<close>

theorem sanitizer_not_idempotent:
  "cleanResponseText ''\<newline>x=1\<newline> y;'' = ''\<newline> y;'' \<and>
   cleanResponseText (cleanResponseText ''\<newline>x=1\<newline> y;'') = [] \<and>
   cleanResponseText_fixed ''\<newline>x=1\<newline> y;'' = ''\<newline> y;'' \<and>
   cleanResponseText_fixed (cleanResponseText_fixed ''\<newline>x=1\<newline> y;'') = []"
  by code_simp

end
